theory Spec2Isabelle
  imports Complex_Main
begin

section \<open>JavaScript values and the class list of an element\<close>

text \<open>
  The script is browser glue code: every function reads or mutates the document. The
  embedding makes the part of the document a function touches an explicit argument and
  result. A property access on \<open>null\<close> (the result of a \<open>querySelector\<close> that
  found nothing) throws a \<open>TypeError\<close>; \<open>document.querySelector\<close> on a string
  that is not a selector throws a \<open>SyntaxError\<close>. The script raises no other
  exception.
\<close>

datatype error = TypeError | SyntaxError

text \<open>
  A JavaScript number as \<open>parseFloat\<close> returns it. A finite double is a rational
  number, and comparing it with the integers 1..5 is exact, so a finite number is
  modelled by its exact value.
\<close>

datatype number = NaN | Finite real | PosInfinity | NegInfinity

text \<open>\<open>x || 0\<close>: the falsy numbers are \<open>NaN\<close> and zero.\<close>

definition or_zero :: "number \<Rightarrow> number" where
  "or_zero x = (case x of NaN \<Rightarrow> Finite 0
                | Finite r \<Rightarrow> (if r = 0 then Finite 0 else Finite r)
                | PosInfinity \<Rightarrow> PosInfinity
                | NegInfinity \<Rightarrow> NegInfinity)"

text \<open>\<open>i <= x\<close> for an integer loop counter \<open>i\<close>.\<close>

definition int_le :: "int \<Rightarrow> number \<Rightarrow> bool" where
  "int_le i x = (case x of NaN \<Rightarrow> False
                | Finite r \<Rightarrow> of_int i \<le> r
                | PosInfinity \<Rightarrow> True
                | NegInfinity \<Rightarrow> False)"

text \<open>
  \<open>classList\<close> is an ordered set of tokens: \<open>add\<close> appends a token that is not
  there, \<open>remove\<close> deletes it, \<open>toggle\<close> does the one or the other.
\<close>

definition classList_add :: "string list \<Rightarrow> string \<Rightarrow> string list" where
  "classList_add cl c = (if c \<in> set cl then cl else cl @ [c])"

definition classList_remove :: "string list \<Rightarrow> string \<Rightarrow> string list" where
  "classList_remove cl c = removeAll c cl"

definition classList_toggle :: "string list \<Rightarrow> string \<Rightarrow> string list" where
  "classList_toggle cl c = (if c \<in> set cl then removeAll c cl else cl @ [c])"


section \<open>Header visibility on scroll (\<open>initHeaderScroll\<close>)\<close>

text \<open>
  \<open>initHeaderScroll\<close> looks up \<open>.main-header\<close> (possibly \<open>null\<close>), remembers
  \<open>window.scrollY\<close> in the closure variable \<open>lastScrollY\<close> and registers a scroll
  listener. The state of the feature is the header element's class list and inline
  transform, and \<open>lastScrollY\<close>.
\<close>

record header =
  header_classList :: "string list"
  header_transform :: string

record header_scroll =
  header :: "header option"
  lastScrollY :: real

definition initHeaderScroll :: "header option \<Rightarrow> real \<Rightarrow> header_scroll" where
  "initHeaderScroll h scrollY = \<lparr>header = h, lastScrollY = scrollY\<rparr>"

text \<open>
  The scroll listener, run with the current \<open>window.scrollY\<close>. With no header the
  first statement dereferences \<open>null\<close>.
\<close>

definition scroll_listener :: "real \<Rightarrow> header_scroll \<Rightarrow> error + header_scroll" where
  "scroll_listener scrollY s =
     (case header s of
        None \<Rightarrow> Inl TypeError
      | Some h \<Rightarrow>
          let h1 = (if scrollY > 10
                    then h\<lparr>header_classList := classList_add (header_classList h) ''header-scrolled''\<rparr>
                    else h\<lparr>header_classList := classList_remove (header_classList h) ''header-scrolled''\<rparr>);
              h2 = (if scrollY > lastScrollY s \<and> scrollY > 100
                    then h1\<lparr>header_transform := ''translateY(-100%)''\<rparr>
                    else h1\<lparr>header_transform := ''translateY(0)''\<rparr>)
          in Inr \<lparr>header = Some h2, lastScrollY = scrollY\<rparr>)"

text \<open>A run of scroll events, each with its offset.\<close>

fun scroll_events :: "real list \<Rightarrow> header_scroll \<Rightarrow> error + header_scroll" where
  "scroll_events [] s = Inr s"
| "scroll_events (y # ys) s =
     (case scroll_listener y s of Inl e \<Rightarrow> Inl e | Inr s' \<Rightarrow> scroll_events ys s')"


section \<open>Biography truncation (\<open>initBioSection\<close>, \<open>toggleBioContent\<close>)\<close>

text \<open>
  The labels are Arabic; a string is the UTF-8 bytes the source file holds.
  \<open>show_more\<close> is the text of line 405 and 429, \<open>show_less\<close> of line 425;
  \<open>arrow_down\<close> and \<open>arrow_up\<close> are U+2193 and U+2191.
\<close>

definition show_more :: string where
  "show_more = [CHR 0xD8, CHR 0xB9, CHR 0xD8, CHR 0xB1, CHR 0xD8, CHR 0xB6, CHR 0x20,
                CHR 0xD8, CHR 0xA7, CHR 0xD9, CHR 0x84, CHR 0xD9, CHR 0x85, CHR 0xD8,
                CHR 0xB2, CHR 0xD9, CHR 0x8A, CHR 0xD8, CHR 0xAF]"

definition show_less :: string where
  "show_less = [CHR 0xD8, CHR 0xB9, CHR 0xD8, CHR 0xB1, CHR 0xD8, CHR 0xB6, CHR 0x20,
                CHR 0xD8, CHR 0xA3, CHR 0xD9, CHR 0x82, CHR 0xD9, CHR 0x84]"

definition arrow_down :: string where
  "arrow_down = [CHR 0xE2, CHR 0x86, CHR 0x93]"

definition arrow_up :: string where
  "arrow_up = [CHR 0xE2, CHR 0x86, CHR 0x91]"

text \<open>
  The \<open>.bio-content\<close> node: its layout height and the two inline style properties the
  script writes (the empty string when unset).
\<close>

record bio_content =
  scrollHeight :: int
  style_maxHeight :: string
  style_overflow :: string

text \<open>
  A button the script creates. Its content is plain text with no markup characters, so
  \<open>textContent\<close> and \<open>innerHTML\<close> read and write the same string.
  \<open>style.cssText\<close> is kept as its list of declarations.
\<close>

record button =
  button_text :: string
  button_className :: string
  button_cssText :: "(string \<times> string) list"

text \<open>
  The \<open>.bio-section\<close> element: its \<open>.bio-content\<close> descendant, if any, and the
  children the script appended to it.
\<close>

record bio_section =
  bioContent :: "bio_content option"
  bio_appended :: "button list"

definition createBioToggleButton :: button where
  "createBioToggleButton =
     (let b = \<lparr>button_text = show_more, button_className = '''', button_cssText = []\<rparr>;
          b = b\<lparr>button_className := ''bio-toggle''\<rparr>;
          b = b\<lparr>button_cssText :=
                 [(''background'', ''none''), (''border'', ''none''),
                  (''color'', ''var(--primary-600)''), (''cursor'', ''pointer''),
                  (''font-size'', ''0.875rem''), (''margin-top'', ''0.5rem''),
                  (''display'', ''inline-flex''), (''align-items'', ''center''),
                  (''gap'', ''0.25rem'')]\<rparr>
      in b\<lparr>button_text := button_text b @ '' '' @ arrow_down\<rparr>)"

definition toggleBioContent :: "bio_content \<Rightarrow> button \<Rightarrow> bio_content \<times> button" where
  "toggleBioContent c b =
     (if style_maxHeight c = ''120px''
      then (c\<lparr>style_maxHeight := ''none''\<rparr>,
            (b\<lparr>button_text := show_less\<rparr>)\<lparr>button_text := show_less @ '' '' @ arrow_up\<rparr>)
      else (c\<lparr>style_maxHeight := ''120px''\<rparr>,
            (b\<lparr>button_text := show_more\<rparr>)\<lparr>button_text := show_more @ '' '' @ arrow_down\<rparr>))"

text \<open>
  \<open>initBioSection\<close> on the result of \<open>document.querySelector('.bio-section')\<close>.
  The section is guarded; its \<open>.bio-content\<close> is not.
\<close>

definition initBioSection :: "bio_section option \<Rightarrow> error + bio_section option" where
  "initBioSection bioSection =
     (case bioSection of
        None \<Rightarrow> Inr None
      | Some sec \<Rightarrow>
          (case bioContent sec of
             None \<Rightarrow> Inl TypeError
           | Some c \<Rightarrow>
               if scrollHeight c > 120
               then Inr (Some (sec\<lparr>bioContent :=
                                      Some (c\<lparr>style_maxHeight := ''120px'', style_overflow := ''hidden''\<rparr>),
                                    bio_appended := bio_appended sec @ [createBioToggleButton]\<rparr>))
               else Inr (Some sec)))"

text \<open>
  The click listener of the toggle button that \<open>initBioSection\<close> appended as child
  number \<open>k\<close>: it calls \<open>toggleBioContent(bioContent, this)\<close>.
\<close>

definition toggle_click :: "nat \<Rightarrow> bio_section \<Rightarrow> bio_section" where
  "toggle_click k sec =
     (case bioContent sec of
        None \<Rightarrow> sec
      | Some c \<Rightarrow>
          if k < length (bio_appended sec)
          then (let (c', b') = toggleBioContent c (bio_appended sec ! k)
                in sec\<lparr>bioContent := Some c', bio_appended := (bio_appended sec)[k := b']\<rparr>)
          else sec)"


section \<open>Rating stars (\<open>initRatingStars\<close>)\<close>

text \<open>
  An \<open>.employee-rating\<close> element: the text of its \<open>.rating-value\<close> descendant and
  the children of its \<open>.rating-stars\<close> container, each \<open>None\<close> when the node is
  missing. A child of the container is a span with a class name and a content.
\<close>

record star =
  star_className :: string
  star_innerHTML :: string

record rating_element =
  rating_value_text :: "string option"
  rating_stars :: "star list option"

definition star_glyph :: string where
  "star_glyph = [CHR 0xE2, CHR 0x98, CHR 0x85]"

definition create_star :: "int \<Rightarrow> number \<Rightarrow> star" where
  "create_star i ratingValue =
     \<lparr>star_className = (if int_le i ratingValue then ''rating-star filled'' else ''rating-star''),
      star_innerHTML = star_glyph\<rparr>"

text \<open>The loop \<open>for (let i = 1; i <= 5; i++)\<close>, appending to the container.\<close>

function stars_loop :: "int \<Rightarrow> number \<Rightarrow> star list \<Rightarrow> star list" where
  "stars_loop i ratingValue container =
     (if i \<le> 5 then stars_loop (i + 1) ratingValue (container @ [create_star i ratingValue])
      else container)"
  by pat_completeness auto
termination
  by (relation "measure (\<lambda>(i, r, c). nat (6 - i))") auto

declare stars_loop.simps [simp del]

text \<open>
  The body of the \<open>forEach\<close> for one rating element. \<open>parseFloat\<close> is the browser's;
  it is a parameter. The \<open>.rating-value\<close> node is dereferenced unguarded, the
  container is guarded.
\<close>

definition render_rating :: "(string \<Rightarrow> number) \<Rightarrow> rating_element \<Rightarrow> error + rating_element" where
  "render_rating parseFloat ratingElement =
     (case rating_value_text ratingElement of
        None \<Rightarrow> Inl TypeError
      | Some txt \<Rightarrow>
          let ratingValue = or_zero (parseFloat txt)
          in (case rating_stars ratingElement of
                None \<Rightarrow> Inr ratingElement
              | Some old \<Rightarrow> Inr (ratingElement\<lparr>rating_stars := Some (stars_loop 1 ratingValue [])\<rparr>)))"

text \<open>
  The \<open>forEach\<close> over the rating elements, in document order. An exception ends it:
  the elements before the one that threw keep what was rendered into them, that one and
  the ones after it are as they were. The result is the rating elements after the run
  and the exception thrown, if any.
\<close>

fun initRatingStars ::
  "(string \<Rightarrow> number) \<Rightarrow> rating_element list \<Rightarrow> rating_element list \<times> error option" where
  "initRatingStars parseFloat [] = ([], None)"
| "initRatingStars parseFloat (r # rs) =
     (case render_rating parseFloat r of
        Inl e \<Rightarrow> (r # rs, Some e)
      | Inr r' \<Rightarrow> (r' # fst (initRatingStars parseFloat rs), snd (initRatingStars parseFloat rs)))"

definition filled :: "star \<Rightarrow> bool" where
  "filled s = (star_className s = ''rating-star filled'')"

text \<open>
  The count the specification gives for a rating \<open>R\<close>:
  \<open>min(5, max(0, floor R))\<close>, read at the infinities as the number of positions
  \<open>1..5\<close> that are \<open>\<le> R\<close>.
\<close>

definition spec_filled_count :: "number \<Rightarrow> nat" where
  "spec_filled_count R = (case R of NaN \<Rightarrow> 0
       | Finite r \<Rightarrow> nat (min 5 (max 0 \<lfloor>r\<rfloor>))
       | PosInfinity \<Rightarrow> 5
       | NegInfinity \<Rightarrow> 0)"

text \<open>A stand-in for \<open>parseFloat\<close> on the texts the examples use.\<close>

definition parse_example :: "string \<Rightarrow> number" where
  "parse_example t = (if t = ''3.7'' then Finite 3.7 else if t = ''3'' then Finite 3 else NaN)"


section \<open>The document tree and selectors\<close>

text \<open>
  The click listeners of the script are registered on the elements a selector finds when
  the page is ready, a click bubbles from its target up through the ancestors, and the
  markup the script assigns to \<open>innerHTML\<close> becomes elements that it then looks up. So
  the document is modelled as a tree. An element has its tag name (lower case), its class
  list, its \<open>href\<close> attribute as \<open>getAttribute('href')\<close> returns it (\<open>None\<close>: no
  such attribute), the value of its \<open>href\<close> property (the resolved URL) and its child
  elements.
\<close>

datatype element =
  Element (tagName: string) (classList: "string list") (getAttribute_href: "string option")
    (href: string) (children: "element list")

text \<open>
  A node is identified by its position: the child indices on the way from the root
  element. \<open>subtree\<close> is the element at a position, \<open>positions\<close> lists the positions
  of a tree in document order.
\<close>

type_synonym node = "nat list"

fun subtree :: "element \<Rightarrow> node \<Rightarrow> element option" where
  "subtree e [] = Some e"
| "subtree e (i # p) = (if i < length (children e) then subtree (children e ! i) p else None)"

fun positions :: "element \<Rightarrow> node list"
  and positions_from :: "nat \<Rightarrow> element list \<Rightarrow> node list" where
  "positions (Element t c a h cs) = [] # positions_from 0 cs"
| "positions_from i [] = []"
| "positions_from i (c # cs) = map ((#) i) (positions c) @ positions_from (Suc i) cs"

text \<open>
  The selectors the script uses on the parts modelled here: a class, a tag name, and
  \<open>a[href^="#"]\<close>.
\<close>

datatype selector = ByClass string | ByTag string | HashLink

fun matches :: "selector \<Rightarrow> element \<Rightarrow> bool" where
  "matches (ByClass c) e = (c \<in> set (classList e))"
| "matches (ByTag t) e = (tagName e = t)"
| "matches HashLink e =
     (tagName e = ''a'' \<and>
      (case getAttribute_href e of None \<Rightarrow> False | Some v \<Rightarrow> take 1 v = ''#''))"

definition matches_at :: "element \<Rightarrow> selector \<Rightarrow> node \<Rightarrow> bool" where
  "matches_at r sel p = (case subtree r p of None \<Rightarrow> False | Some e \<Rightarrow> matches sel e)"

definition querySelectorAll :: "element \<Rightarrow> selector \<Rightarrow> node list" where
  "querySelectorAll r sel = filter (matches_at r sel) (positions r)"

definition querySelector :: "element \<Rightarrow> selector \<Rightarrow> node option" where
  "querySelector r sel = (case querySelectorAll r sel of [] \<Rightarrow> None | p # ps \<Rightarrow> Some p)"

text \<open>\<open>element.querySelector\<close>: the first proper descendant that matches.\<close>

definition element_querySelector :: "element \<Rightarrow> selector \<Rightarrow> element option" where
  "element_querySelector e sel =
     (case filter (matches_at e sel) (tl (positions e)) of
        [] \<Rightarrow> None
      | p # ps \<Rightarrow> subtree e p)"

text \<open>
  The propagation path of an event: the target, then its ancestors up to the root
  element. \<open>ancestors\<close> are the proper ones; \<open>closest\<close> is the first node of the path
  that matches.
\<close>

fun composedPath :: "node \<Rightarrow> node list" where
  "composedPath p = p # (if p = [] then [] else composedPath (butlast p))"

declare composedPath.simps [simp del]

definition ancestors :: "node \<Rightarrow> node list" where
  "ancestors p = tl (composedPath p)"

definition closest :: "element \<Rightarrow> node \<Rightarrow> selector \<Rightarrow> node option" where
  "closest r target sel = find (matches_at r sel) (composedPath target)"


section \<open>Timers, toasts and the portfolio modal\<close>

text \<open>
  \<open>className\<close> is a string; the class list of the element is its tokens: the maximal
  runs of characters other than ASCII whitespace, each kept at its first occurrence.
\<close>

definition ascii_whitespace :: "char \<Rightarrow> bool" where
  "ascii_whitespace c = (c = CHR 0x20 \<or> c = CHR 0x09 \<or> c = CHR 0x0A \<or> c = CHR 0x0C \<or> c = CHR 0x0D)"

fun tokens_from :: "string \<Rightarrow> string \<Rightarrow> string list" where
  "tokens_from cur [] = (if cur = [] then [] else [cur])"
| "tokens_from cur (c # cs) =
     (if ascii_whitespace c
      then (if cur = [] then tokens_from [] cs else cur # tokens_from [] cs)
      else tokens_from (cur @ [c]) cs)"

definition class_tokens :: "string \<Rightarrow> string list" where
  "class_tokens className = rev (remdups (rev (tokens_from [] className)))"

definition has_class :: "string \<Rightarrow> string \<Rightarrow> bool" where
  "has_class c className = (c \<in> set (class_tokens className))"

text \<open>
  A toast element attached to the document: one the server rendered or one
  \<open>showToast\<close> created. \<open>toast_close\<close> is its \<open>.toast-close\<close> button, as the number
  of click listeners on it that dismiss this toast (\<open>None\<close>: no such button).
\<close>

record toast =
  toast_id :: nat
  toast_className :: string
  toast_message :: string
  toast_close :: "nat option"
  toast_animation :: string

text \<open>
  The markup that \<open>openPortfolioModal\<close> assigns to \<open>innerHTML\<close>: the template of
  lines 272 to 283 with the title, the image source and the description put in as they
  are, nothing escaped. The multiplication sign of the close button is U+00D7.
\<close>

definition line_feed :: string where
  "line_feed = [CHR 0x0A]"

definition dquote :: string where
  "dquote = [CHR 0x22]"

definition times_sign :: string where
  "times_sign = [CHR 0xC3, CHR 0x97]"

definition modal_markup :: "string \<Rightarrow> string \<Rightarrow> string \<Rightarrow> string" where
  "modal_markup imageSrc title description =
     line_feed @
     ''    <div class='' @ dquote @ ''modal-content'' @ dquote @ ''>'' @ line_feed @
     ''      <div class='' @ dquote @ ''modal-header'' @ dquote @ ''>'' @ line_feed @
     ''        <h3>'' @ title @ ''</h3>'' @ line_feed @
     ''        <button class='' @ dquote @ ''modal-close'' @ dquote @ ''>'' @ times_sign @
       ''</button>'' @ line_feed @
     ''      </div>'' @ line_feed @
     ''      <div class='' @ dquote @ ''modal-body'' @ dquote @ ''>'' @ line_feed @
     ''        <img src='' @ dquote @ imageSrc @ dquote @ '' alt='' @ dquote @ title @ dquote @
       ''>'' @ line_feed @
     ''        '' @ (if description \<noteq> [] then ''<p>'' @ description @ ''</p>'' else []) @ line_feed @
     ''      </div>'' @ line_feed @
     ''    </div>'' @ line_feed @
     ''  ''"

text \<open>
  A portfolio modal attached to \<open>document.body\<close>: the element \<open>createModal\<close> made,
  the markup assigned to it and the child elements the browser parsed from the markup,
  the inline transform the script writes to its \<open>.modal-content\<close> box, and whether
  the two closing listeners of \<open>openPortfolioModal\<close> are registered: the one on the
  \<open>.modal-close\<close> button and the one on the modal itself.
\<close>

record modal =
  modal_id :: nat
  modal_className :: string
  modal_cssText :: "(string \<times> string) list"
  modal_opacity :: string
  modal_innerHTML :: string
  modal_children :: "element list"
  modal_content_transform :: string
  modal_close_bound :: bool
  modal_backdrop_bound :: bool

text \<open>The callbacks the script passes to \<open>setTimeout\<close>, each with the node it closes over.\<close>

datatype callback =
    SweepToasts
  | RemoveToast nat
  | ExpireToast nat
  | ShowModal nat
  | RemoveModal nat

text \<open>
  The running page: a clock in milliseconds, the pending timers (due time and callback,
  in the order they were set), whether \<open>#toast-container\<close> exists, the attached toasts
  and modals, the identity the next created node gets, and the exceptions thrown so far
  by the listeners and callbacks that ran (the browser reports them and goes on).
\<close>

record runtime =
  now :: nat
  timers :: "(nat \<times> callback) list"
  toast_container :: bool
  toasts :: "toast list"
  modals :: "modal list"
  next_node :: nat
  thrown :: "error list"

definition setTimeout :: "callback \<Rightarrow> nat \<Rightarrow> runtime \<Rightarrow> runtime" where
  "setTimeout cb delay s = s\<lparr>timers := timers s @ [(now s + delay, cb)]\<rparr>"

text \<open>\<open>node.parentNode\<close> is not null: the node is attached.\<close>

definition toast_attached :: "nat \<Rightarrow> runtime \<Rightarrow> bool" where
  "toast_attached tid s = (tid \<in> set (map toast_id (toasts s)))"

definition modal_attached :: "nat \<Rightarrow> runtime \<Rightarrow> bool" where
  "modal_attached mid s = (mid \<in> set (map modal_id (modals s)))"

definition animateToastOut :: "nat \<Rightarrow> runtime \<Rightarrow> runtime" where
  "animateToastOut tid s =
     (let s1 = s\<lparr>toasts := map (\<lambda>t. if toast_id t = tid
                                     then t\<lparr>toast_animation := ''toastSlideOut 0.3s ease-in forwards''\<rparr>
                                     else t) (toasts s)\<rparr>
      in setTimeout (RemoveToast tid) 300 s1)"

text \<open>
  \<open>initToastSystem\<close>: the sweep timer, five seconds after the page is ready, and a
  click listener on every \<open>.toast-close\<close> button that is inside a \<open>.toast\<close>.
\<close>

definition initToastSystem :: "runtime \<Rightarrow> runtime" where
  "initToastSystem s =
     (let s1 = setTimeout SweepToasts 5000 s
      in s1\<lparr>toasts := map (\<lambda>t. if has_class ''toast'' (toast_className t)
                                 then t\<lparr>toast_close := map_option Suc (toast_close t)\<rparr>
                                 else t) (toasts s1)\<rparr>)"

definition createToastContainer :: "runtime \<Rightarrow> runtime" where
  "createToastContainer s = s\<lparr>toast_container := True\<rparr>"

text \<open>
  \<open>showToast(message, type = 'success')\<close>; the second argument is \<open>None\<close> when the
  caller omits it. The toast is built from a template with the message and a close
  button. The message is taken as text, as in the one call of the script (line 359, a
  literal with no markup in it): the close button of the template is then an element of
  the toast, and it carries the one click listener \<open>showToast\<close> adds.
\<close>

definition showToast :: "string \<Rightarrow> string option \<Rightarrow> runtime \<Rightarrow> runtime" where
  "showToast message type_arg s =
     (let type = (case type_arg of None \<Rightarrow> ''success'' | Some t \<Rightarrow> t);
          s1 = (if toast_container s then s else createToastContainer s);
          toast = \<lparr>toast_id = next_node s1, toast_className = ''toast '' @ type,
                   toast_message = message, toast_close = Some 1, toast_animation = ''''\<rparr>;
          s2 = s1\<lparr>toasts := toasts s1 @ [toast], next_node := next_node s1 + 1\<rparr>
      in setTimeout (ExpireToast (toast_id toast)) 5000 s2)"

text \<open>A click on the close button of the attached toast \<open>tid\<close>: each listener runs.\<close>

definition click_toast_close :: "nat \<Rightarrow> runtime \<Rightarrow> runtime" where
  "click_toast_close tid s =
     (case find (\<lambda>t. toast_id t = tid) (toasts s) of
        None \<Rightarrow> s
      | Some t \<Rightarrow> (case toast_close t of None \<Rightarrow> s | Some n \<Rightarrow> (animateToastOut tid ^^ n) s))"

definition createModal :: "nat \<Rightarrow> modal" where
  "createModal node =
     \<lparr>modal_id = node, modal_className = ''portfolio-modal'',
      modal_cssText = [(''position'', ''fixed''), (''top'', ''0''), (''left'', ''0''),
                       (''width'', ''100%''), (''height'', ''100%''),
                       (''background'', ''rgba(0, 0, 0, 0.8)''), (''display'', ''flex''),
                       (''align-items'', ''center''), (''justify-content'', ''center''),
                       (''z-index'', ''1000''), (''transition'', ''opacity 0.3s ease'')],
      modal_opacity = ''0'', modal_innerHTML = '''', modal_children = [],
      modal_content_transform = '''', modal_close_bound = False, modal_backdrop_bound = False\<rparr>"

text \<open>
  \<open>modal.querySelector\<close>, on the elements parsed from the markup.
  \<open>has_content\<close>: the modal has a \<open>.modal-content\<close> descendant, whose style the
  show callback and \<open>closeModal\<close> write without a guard.
\<close>

definition modal_querySelector :: "modal \<Rightarrow> selector \<Rightarrow> element option" where
  "modal_querySelector m sel =
     element_querySelector
       (Element ''div'' (class_tokens (modal_className m)) None '''' (modal_children m)) sel"

definition has_content :: "modal \<Rightarrow> bool" where
  "has_content m = (modal_querySelector m (ByClass ''modal-content'') \<noteq> None)"

definition lacks_content :: "nat \<Rightarrow> runtime \<Rightarrow> bool" where
  "lacks_content mid s = (\<exists>m\<in>set (modals s). modal_id m = mid \<and> \<not> has_content m)"

definition update_modal :: "nat \<Rightarrow> (modal \<Rightarrow> modal) \<Rightarrow> modal list \<Rightarrow> modal list" where
  "update_modal mid f ms = map (\<lambda>m. if modal_id m = mid then f m else m) ms"

text \<open>
  \<open>openPortfolioModal\<close>. The browser's parser of the markup is a parameter. The modal
  is appended and its show timer set before the close button is looked up; the button is
  dereferenced unguarded (line 295), so when the parsed markup has no \<open>.modal-close\<close>
  the function throws there and registers neither closing listener.
\<close>

definition openPortfolioModal ::
  "(string \<Rightarrow> element list) \<Rightarrow> string \<Rightarrow> string \<Rightarrow> string \<Rightarrow> runtime \<Rightarrow> runtime" where
  "openPortfolioModal parseHTML imageSrc title description s =
     (let modal = createModal (next_node s);
          markup = modal_markup imageSrc title description;
          modal = modal\<lparr>modal_innerHTML := markup, modal_children := parseHTML markup\<rparr>;
          s1 = s\<lparr>modals := modals s @ [modal], next_node := next_node s + 1\<rparr>;
          s2 = setTimeout (ShowModal (modal_id modal)) 10 s1
      in (case modal_querySelector modal (ByClass ''modal-close'') of
            None \<Rightarrow> s2\<lparr>thrown := thrown s2 @ [TypeError]\<rparr>
          | Some closeButton \<Rightarrow>
              s2\<lparr>modals := modals s @
                   [modal\<lparr>modal_close_bound := True, modal_backdrop_bound := True\<rparr>]\<rparr>))"

text \<open>
  \<open>closeModal\<close> writes the opacity, then the transform of the \<open>.modal-content\<close>
  box, then sets the removal timer; without the box it throws after the first.
\<close>

definition close_step :: "modal \<Rightarrow> modal" where
  "close_step m =
     (if has_content m
      then m\<lparr>modal_opacity := ''0'', modal_content_transform := ''scale(0.9)''\<rparr>
      else m\<lparr>modal_opacity := ''0''\<rparr>)"

definition closeModal :: "nat \<Rightarrow> runtime \<Rightarrow> runtime" where
  "closeModal mid s =
     (let s1 = s\<lparr>modals := update_modal mid close_step (modals s)\<rparr>
      in if lacks_content mid s
         then s1\<lparr>thrown := thrown s1 @ [TypeError]\<rparr>
         else setTimeout (RemoveModal mid) 300 s1)"

text \<open>
  A click inside the attached modal \<open>mid\<close>. On the close button (the element the lookup
  of line 294 found) its listener closes the modal, and the event bubbles to the modal's
  own listener, which sees a target other than the modal. On the backdrop the target is
  the modal itself. Anywhere else in the content neither listener acts. A listener that
  was never registered does not run.
\<close>

datatype modal_part = Backdrop | CloseButton | Content

definition click_modal :: "nat \<Rightarrow> modal_part \<Rightarrow> runtime \<Rightarrow> runtime" where
  "click_modal mid part s =
     (case find (\<lambda>m. modal_id m = mid) (modals s) of
        None \<Rightarrow> s
      | Some m \<Rightarrow>
          (case part of
             Backdrop \<Rightarrow> if modal_backdrop_bound m then closeModal mid s else s
           | CloseButton \<Rightarrow> if modal_close_bound m then closeModal mid s else s
           | Content \<Rightarrow> s))"

text \<open>
  The show callback of \<open>openPortfolioModal\<close> writes the opacity, then the transform of
  the \<open>.modal-content\<close> box; without the box it throws after the first. On a modal
  that is no longer attached the callbacks write a detached node, which is no part of
  the document; such a modal had its box, since only \<open>closeModal\<close> sets the removal
  timer.
\<close>

definition show_step :: "modal \<Rightarrow> modal" where
  "show_step m =
     (if has_content m
      then m\<lparr>modal_opacity := ''1'', modal_content_transform := ''scale(1)''\<rparr>
      else m\<lparr>modal_opacity := ''1''\<rparr>)"

text \<open>What each timer callback does when it fires.\<close>

fun fire :: "callback \<Rightarrow> runtime \<Rightarrow> runtime" where
  "fire SweepToasts s =
     fold animateToastOut
       (map toast_id (filter (\<lambda>t. has_class ''toast'' (toast_className t)) (toasts s))) s"
| "fire (RemoveToast tid) s =
     (if toast_attached tid s then s\<lparr>toasts := filter (\<lambda>t. toast_id t \<noteq> tid) (toasts s)\<rparr> else s)"
| "fire (ExpireToast tid) s =
     (if toast_attached tid s then animateToastOut tid s else s)"
| "fire (ShowModal mid) s =
     (let s1 = s\<lparr>modals := update_modal mid show_step (modals s)\<rparr>
      in if lacks_content mid s then s1\<lparr>thrown := thrown s1 @ [TypeError]\<rparr> else s1)"
| "fire (RemoveModal mid) s =
     (if modal_attached mid s then s\<lparr>modals := filter (\<lambda>m. modal_id m \<noteq> mid) (modals s)\<rparr> else s)"

text \<open>
  The browser's side of \<open>setTimeout\<close>, on a logical clock: time passes one millisecond
  at a time, and at each millisecond the timers that are due are taken off the queue and
  fired in the order they were set. A timer fires exactly when it is due; a real browser
  may fire it later, never earlier.
\<close>

definition is_due :: "nat \<Rightarrow> nat \<times> callback \<Rightarrow> bool" where
  "is_due t tm = (fst tm \<le> t)"

definition run_due :: "runtime \<Rightarrow> runtime" where
  "run_due s =
     fold (\<lambda>tm. fire (snd tm)) (filter (is_due (now s)) (timers s))
       (s\<lparr>timers := filter (\<lambda>tm. \<not> is_due (now s) tm) (timers s)\<rparr>)"

definition tick :: "runtime \<Rightarrow> runtime" where
  "tick s = run_due (s\<lparr>now := now s + 1\<rparr>)"

primrec advance :: "nat \<Rightarrow> runtime \<Rightarrow> runtime" where
  "advance 0 s = s"
| "advance (Suc n) s = advance n (tick s)"

text \<open>The page when the document is ready: nothing pending, the toasts the server rendered.\<close>

definition page_ready :: "bool \<Rightarrow> toast list \<Rightarrow> runtime" where
  "page_ready container rendered =
     \<lparr>now = 0, timers = [], toast_container = container, toasts = rendered, modals = [],
      next_node = (if rendered = [] then 0 else Suc (Max (set (map toast_id rendered)))),
      thrown = []\<rparr>"


text \<open>
  The message of the one call of \<open>showToast\<close> in the script (line 359, the click
  listener of the disabled contact button), as its UTF-8 bytes.
\<close>

definition contact_disabled_message :: string where
  "contact_disabled_message =
     [CHR 0xD8, CHR 0xA7, CHR 0xD9, CHR 0x84, CHR 0xD8, CHR 0xAA, CHR 0xD9, CHR 0x88,
      CHR 0xD8, CHR 0xA7, CHR 0xD8, CHR 0xB5, CHR 0xD9, CHR 0x84, CHR 0x20, CHR 0xD8,
      CHR 0xB9, CHR 0xD8, CHR 0xA8, CHR 0xD8, CHR 0xB1, CHR 0x20, CHR 0xD9, CHR 0x88,
      CHR 0xD8, CHR 0xA7, CHR 0xD8, CHR 0xAA, CHR 0xD8, CHR 0xB3, CHR 0xD8, CHR 0xA7,
      CHR 0xD8, CHR 0xA8, CHR 0x20, CHR 0xD9, CHR 0x85, CHR 0xD9, CHR 0x88, CHR 0xD9,
      CHR 0x82, CHR 0xD9, CHR 0x88, CHR 0xD9, CHR 0x81, CHR 0x20, CHR 0xD9, CHR 0x85,
      CHR 0xD8, CHR 0xA4, CHR 0xD9, CHR 0x82, CHR 0xD8, CHR 0xAA, CHR 0xD9, CHR 0x8B,
      CHR 0xD8, CHR 0xA7, CHR 0x20, CHR 0xD8, CHR 0xAD, CHR 0xD8, CHR 0xB3, CHR 0xD8,
      CHR 0xA8, CHR 0x20, CHR 0xD8, CHR 0xB3, CHR 0xD9, CHR 0x8A, CHR 0xD8, CHR 0xA7,
      CHR 0xD8, CHR 0xB3, CHR 0xD8, CHR 0xA9, CHR 0x20, CHR 0xD8, CHR 0xA7, CHR 0xD9,
      CHR 0x84, CHR 0xD9, CHR 0x85, CHR 0xD9, CHR 0x86, CHR 0xD8, CHR 0xB5, CHR 0xD8,
      CHR 0xA9]"

text \<open>The timers that belong to the modal, and what their callbacks do to the attached modals.\<close>

fun is_modal_callback :: "callback \<Rightarrow> bool" where
  "is_modal_callback (ShowModal k) = True"
| "is_modal_callback (RemoveModal k) = True"
| "is_modal_callback cb = False"

definition modal_timers :: "runtime \<Rightarrow> (nat \<times> callback) list" where
  "modal_timers s = filter (\<lambda>tm. is_modal_callback (snd tm)) (timers s)"

text \<open>
  One round with the modal: open it, wait, click a part of the modal just created, wait
  again.
\<close>

definition open_then_close ::
  "(string \<Rightarrow> element list) \<Rightarrow> string \<Rightarrow> string \<Rightarrow> string \<Rightarrow> nat \<Rightarrow> modal_part \<Rightarrow> nat \<Rightarrow>
   runtime \<Rightarrow> runtime" where
  "open_then_close parseHTML imageSrc title description wait part after s =
     advance after
       (click_modal (next_node s) part
          (advance wait (openPortfolioModal parseHTML imageSrc title description s)))"

fun modal_step :: "callback \<Rightarrow> modal list \<Rightarrow> modal list" where
  "modal_step (ShowModal k) ms = update_modal k show_step ms"
| "modal_step (RemoveModal k) ms = filter (\<lambda>m. modal_id m \<noteq> k) ms"
| "modal_step cb ms = ms"

text \<open>
  \<open>wired\<close>: the modal has its content box and both closing listeners.
  \<open>parses_whole\<close>: the browser's parser finds the close button and the content box in
  the markup of these three strings.

  Two phases of a round. \<open>opened k B\<close>: the modal \<open>k\<close> is the one modal of the
  document, it is wired, and the modal's pending timers are show timers, due by \<open>B\<close>.
  \<open>closing k T\<close>: a close was clicked, its removal timer is due at \<open>T\<close>; before
  \<open>T\<close> the modal is still the one modal of the document, from \<open>T\<close> on there is none.
\<close>

definition wired :: "modal \<Rightarrow> bool" where
  "wired m = (has_content m \<and> modal_close_bound m \<and> modal_backdrop_bound m)"

definition parses_whole :: "(string \<Rightarrow> element list) \<Rightarrow> string \<Rightarrow> string \<Rightarrow> string \<Rightarrow> bool" where
  "parses_whole parseHTML imageSrc title description =
     (let box = Element ''div'' [''portfolio-modal''] None ''''
                  (parseHTML (modal_markup imageSrc title description))
      in element_querySelector box (ByClass ''modal-close'') \<noteq> None \<and>
         element_querySelector box (ByClass ''modal-content'') \<noteq> None)"

definition opened :: "nat \<Rightarrow> nat \<Rightarrow> runtime \<Rightarrow> bool" where
  "opened k B s =
     ((\<exists>m. modals s = [m] \<and> modal_id m = k \<and> wired m) \<and>
      (\<forall>tm\<in>set (modal_timers s). snd tm = ShowModal k \<and> now s < fst tm \<and> fst tm \<le> B))"

definition closing :: "nat \<Rightarrow> nat \<Rightarrow> runtime \<Rightarrow> bool" where
  "closing k T s =
     ((\<forall>tm\<in>set (modal_timers s). now s < fst tm \<and> fst tm \<le> T \<and>
          (snd tm = ShowModal k \<or> snd tm = RemoveModal k)) \<and>
      (if now s < T
       then (\<exists>m. modals s = [m] \<and> modal_id m = k) \<and>
            (T, RemoveModal k) \<in> set (modal_timers s) \<and>
            (\<forall>tm\<in>set (modal_timers s). snd tm = RemoveModal k \<longrightarrow> fst tm = T)
       else modals s = []))"

text \<open>
  A stand-in for the browser's parser on the markups the examples use. With the plain
  titles the template parses to its own structure. With the title \<open><textarea>\<close> the
  parser is in the text of the \<open>textarea\<close> from there to the end of the markup: the
  heading holds the \<open>textarea\<close>, and the close button and the body of the template
  are not elements but text.
\<close>

definition parse_markup_example :: "string \<Rightarrow> element list" where
  "parse_markup_example markup =
     (if markup = modal_markup ''/media/a.png'' ''A'' ''first''
      then [Element ''div'' [''modal-content''] None '''' [
              Element ''div'' [''modal-header''] None '''' [
                Element ''h3'' [] None '''' [],
                Element ''button'' [''modal-close''] None '''' []],
              Element ''div'' [''modal-body''] None '''' [
                Element ''img'' [] None '''' [],
                Element ''p'' [] None '''' []]]]
      else if markup = modal_markup ''/media/b.png'' ''B'' ''''
      then [Element ''div'' [''modal-content''] None '''' [
              Element ''div'' [''modal-header''] None '''' [
                Element ''h3'' [] None '''' [],
                Element ''button'' [''modal-close''] None '''' []],
              Element ''div'' [''modal-body''] None '''' [
                Element ''img'' [] None '''' []]]]
      else if markup = modal_markup ''/media/a.png'' ''<textarea>'' ''''
      then [Element ''div'' [''modal-content''] None '''' [
              Element ''div'' [''modal-header''] None '''' [
                Element ''h3'' [] None '''' [
                  Element ''textarea'' [] None '''' []]]]]
      else [])"


section \<open>Click events\<close>

text \<open>The text the contact listener logs (line 498), as its UTF-8 bytes.\<close>

definition contact_log_message :: string where
  "contact_log_message =
     [CHR 0xD9, CHR 0x81, CHR 0xD8, CHR 0xAA, CHR 0xD8, CHR 0xAD, CHR 0x20, CHR 0xD9,
      CHR 0x86, CHR 0xD8, CHR 0xA7, CHR 0xD9, CHR 0x81, CHR 0xD8, CHR 0xB0, CHR 0xD8,
      CHR 0xA9, CHR 0x20, CHR 0xD8, CHR 0xA7, CHR 0xD9, CHR 0x84, CHR 0xD8, CHR 0xAA,
      CHR 0xD9, CHR 0x88, CHR 0xD8, CHR 0xA7, CHR 0xD8, CHR 0xB5, CHR 0xD9, CHR 0x84,
      CHR 0x20, CHR 0xD9, CHR 0x84, CHR 0xD9, CHR 0x84, CHR 0xD8, CHR 0xAA, CHR 0xD9,
      CHR 0x82, CHR 0xD9, CHR 0x86, CHR 0xD9, CHR 0x8A]"

text \<open>
  What the browser computes and the script only reads: \<open>document.querySelector\<close> on a
  selector string taken from an \<open>href\<close> (it may throw), the layout of a node, the scroll
  offset of the window.
\<close>

record env =
  querySelector_string :: "string \<Rightarrow> error + node option"
  offsetHeight :: "node \<Rightarrow> real"
  boundingTop :: "node \<Rightarrow> real"
  pageYOffset :: real

text \<open>
  What the click listeners write: the class list of \<open>document.body\<close>,
  \<open>window.location.href\<close>, the last \<open>window.scrollTo\<close>, the inline transforms and
  timers of \<open>animateButtonClick\<close>, the console, the exceptions a listener threw (the
  browser reports them and goes on with the next listener), and the two flags of the
  event being dispatched.
\<close>

record click_state =
  body_classList :: "string list"
  location_href :: string
  scrollTo_top :: "real option"
  style_transform :: "(node \<times> string) list"
  timeouts :: "(nat \<times> node) list"
  console :: "string list"
  uncaught :: "error list"
  default_prevented :: bool
  propagation_stopped :: bool

text \<open>
  The click listeners of \<open>initSmoothScroll\<close>, \<open>initMobileMenu\<close>,
  \<open>initEmployeeCards\<close> and \<open>initGridContactButtons\<close>. The other click listeners
  (the close buttons of toasts, and on the profile page the portfolio items and the two
  contact buttons) write none of the fields of this state; they are left out here, as
  are the hover listeners.
\<close>

datatype handler = SmoothScroll | ToggleMobileMenu | CloseMobileMenu | CardClick | ContactClick

type_synonym listeners = "(node \<times> handler) list"

definition toggleMobileMenu :: "click_state \<Rightarrow> click_state" where
  "toggleMobileMenu s = s\<lparr>body_classList := classList_toggle (body_classList s) ''nav-open''\<rparr>"

definition closeMobileMenu :: "click_state \<Rightarrow> click_state" where
  "closeMobileMenu s = s\<lparr>body_classList := classList_remove (body_classList s) ''nav-open''\<rparr>"

definition throw :: "error \<Rightarrow> click_state \<Rightarrow> click_state" where
  "throw e s = s\<lparr>uncaught := uncaught s @ [e]\<rparr>"

text \<open>\<open>scrollToElement\<close> dereferences \<open>.main-header\<close> unguarded.\<close>

definition scrollToElement :: "env \<Rightarrow> element \<Rightarrow> node \<Rightarrow> click_state \<Rightarrow> click_state" where
  "scrollToElement v r element s =
     (case querySelector r (ByClass ''main-header'') of
        None \<Rightarrow> throw TypeError s
      | Some h \<Rightarrow>
          let headerHeight = offsetHeight v h;
              targetPosition = boundingTop v element + pageYOffset v - headerHeight
          in s\<lparr>scrollTo_top := Some targetPosition\<rparr>)"

text \<open>
  The listener of \<open>initSmoothScroll\<close> on the link \<open>this\<close>. It is registered on links
  that have the attribute, so \<open>targetId\<close> is a string there.
\<close>

definition smooth_scroll_click :: "env \<Rightarrow> element \<Rightarrow> node \<Rightarrow> click_state \<Rightarrow> click_state" where
  "smooth_scroll_click v r this s =
     (case subtree r this of
        None \<Rightarrow> s
      | Some link \<Rightarrow>
          (case getAttribute_href link of
             None \<Rightarrow> throw TypeError s
           | Some targetId \<Rightarrow>
               if length targetId > 1
               then (case querySelector_string v targetId of
                       Inl e \<Rightarrow> throw e s
                     | Inr None \<Rightarrow> s
                     | Inr (Some target) \<Rightarrow>
                         scrollToElement v r target
                           (closeMobileMenu (s\<lparr>default_prevented := True\<rparr>)))
               else s))"

text \<open>The click listener of a card, \<open>this\<close>, for an event with the given target.\<close>

definition card_click :: "element \<Rightarrow> node \<Rightarrow> node \<Rightarrow> click_state \<Rightarrow> click_state" where
  "card_click r this target s =
     (if closest r target (ByTag ''a'') \<noteq> None \<or> closest r target (ByTag ''button'') \<noteq> None
      then s
      else (case subtree r this of
              None \<Rightarrow> s
            | Some cardElement \<Rightarrow>
                (case element_querySelector cardElement (ByClass ''btn-view-profile'') of
                   None \<Rightarrow> s
                 | Some profileLink \<Rightarrow> s\<lparr>location_href := href profileLink\<rparr>)))"

definition animateButtonClick :: "node \<Rightarrow> click_state \<Rightarrow> click_state" where
  "animateButtonClick button s =
     s\<lparr>style_transform := (button, ''scale(0.95)'') # style_transform s,
       timeouts := timeouts s @ [(150, button)]\<rparr>"

text \<open>The click listener of a contact button of the grid.\<close>

definition contact_click :: "node \<Rightarrow> click_state \<Rightarrow> click_state" where
  "contact_click this s =
     (let s1 = s\<lparr>propagation_stopped := True\<rparr>;
          s2 = animateButtonClick this s1
      in s2\<lparr>console := console s2 @ [contact_log_message]\<rparr>)"

fun run_handler :: "env \<Rightarrow> element \<Rightarrow> node \<Rightarrow> handler \<times> node \<Rightarrow> click_state \<Rightarrow> click_state" where
  "run_handler v r target (SmoothScroll, this) s = smooth_scroll_click v r this s"
| "run_handler v r target (ToggleMobileMenu, this) s = toggleMobileMenu s"
| "run_handler v r target (CloseMobileMenu, this) s = closeMobileMenu s"
| "run_handler v r target (CardClick, this) s = card_click r this target s"
| "run_handler v r target (ContactClick, this) s = contact_click this s"

text \<open>
  The initialisers, as the listeners they register, in the order of registration.
  \<open>initMobileMenu\<close> registers on the first \<open>.menu-toggle\<close>, and on the navigation
  links only when that toggle exists.
\<close>

definition initSmoothScroll :: "element \<Rightarrow> listeners" where
  "initSmoothScroll r = map (\<lambda>link. (link, SmoothScroll)) (querySelectorAll r HashLink)"

definition initMobileMenu :: "element \<Rightarrow> listeners" where
  "initMobileMenu r =
     (case querySelector r (ByClass ''menu-toggle'') of
        None \<Rightarrow> []
      | Some menuToggle \<Rightarrow>
          (menuToggle, ToggleMobileMenu) #
          map (\<lambda>link. (link, CloseMobileMenu)) (querySelectorAll r (ByClass ''nav-link'')))"

definition initCoreFunctions :: "element \<Rightarrow> listeners" where
  "initCoreFunctions r = initSmoothScroll r @ initMobileMenu r"

definition initEmployeeCards :: "element \<Rightarrow> listeners" where
  "initEmployeeCards r = map (\<lambda>c. (c, CardClick)) (querySelectorAll r (ByClass ''employee-card''))"

definition initGridContactButtons :: "element \<Rightarrow> listeners" where
  "initGridContactButtons r =
     map (\<lambda>button. (button, ContactClick)) (querySelectorAll r (ByClass ''btn-contact''))"

text \<open>
  The page: the tree, and the two parts of it that the biography and the rating
  initialisers read. Of \<open>initEmployeeProfilePage\<close> only \<open>initBioSection\<close> can throw;
  \<open>initEmployeesGridPage\<close> runs \<open>initRatingStars\<close> between registering the card
  listeners and the contact listeners. An exception ends the \<open>DOMContentLoaded\<close>
  listener: what was registered before stays, nothing after it runs. The result is
  the listeners registered and the exception thrown, if any.
\<close>

record page =
  documentElement :: element
  bioSection :: "bio_section option"
  ratingElements :: "rating_element list"

definition initEmployeeProfilePage :: "page \<Rightarrow> error option" where
  "initEmployeeProfilePage pg =
     (case initBioSection (bioSection pg) of Inl e \<Rightarrow> Some e | Inr b \<Rightarrow> None)"

definition initEmployeesGridPage :: "(string \<Rightarrow> number) \<Rightarrow> page \<Rightarrow> listeners \<times> error option" where
  "initEmployeesGridPage parseFloat pg =
     (let cards = initEmployeeCards (documentElement pg)
      in (case snd (initRatingStars parseFloat (ratingElements pg)) of
            Some e \<Rightarrow> (cards, Some e)
          | None \<Rightarrow> (cards @ initGridContactButtons (documentElement pg), None)))"

definition initPageSpecificFunctions :: "(string \<Rightarrow> number) \<Rightarrow> page \<Rightarrow> listeners \<times> error option" where
  "initPageSpecificFunctions parseFloat pg =
     (case (if querySelector (documentElement pg) (ByClass ''employee-profile'') \<noteq> None
            then initEmployeeProfilePage pg else None) of
        Some e \<Rightarrow> ([], Some e)
      | None \<Rightarrow>
          if querySelector (documentElement pg) (ByClass ''employees-grid'') \<noteq> None
          then initEmployeesGridPage parseFloat pg
          else ([], None))"

definition DOMContentLoaded :: "(string \<Rightarrow> number) \<Rightarrow> page \<Rightarrow> listeners \<times> error option" where
  "DOMContentLoaded parseFloat pg =
     (let core = initCoreFunctions (documentElement pg);
          specific = initPageSpecificFunctions parseFloat pg
      in (core @ fst specific, snd specific))"

text \<open>
  Dispatching a click: at each node of the propagation path the listeners registered on
  it run in the order of registration; after a node whose listener called
  \<open>stopPropagation\<close> the event goes no further.
\<close>

definition handlers_at :: "listeners \<Rightarrow> node \<Rightarrow> (handler \<times> node) list" where
  "handlers_at ls p = map (\<lambda>l. (snd l, p)) (filter (\<lambda>l. fst l = p) ls)"

fun bubble :: "env \<Rightarrow> element \<Rightarrow> listeners \<Rightarrow> node \<Rightarrow> node list \<Rightarrow> click_state \<Rightarrow> click_state" where
  "bubble v r ls target [] s = s"
| "bubble v r ls target (p # ps) s =
     (let s' = fold (run_handler v r target) (handlers_at ls p) s
      in if propagation_stopped s' then s' else bubble v r ls target ps s')"

definition click :: "env \<Rightarrow> element \<Rightarrow> listeners \<Rightarrow> node \<Rightarrow> click_state \<Rightarrow> click_state" where
  "click v r ls target s =
     (case subtree r target of
        None \<Rightarrow> s
      | Some e \<Rightarrow>
          bubble v r ls target (composedPath target)
            (s\<lparr>default_prevented := False, propagation_stopped := False\<rparr>))"

definition menu_open :: "click_state \<Rightarrow> bool" where
  "menu_open s = (''nav-open'' \<in> set (body_classList s))"

text \<open>
  \<open>scroll_target\<close>: the target the smooth-scroll listener on \<open>p\<close> finds, if any;
  \<open>scrolls\<close>: a click on \<open>p\<close> is a smooth-scroll navigation to an existing target.
  \<open>reaches\<close>: the click on \<open>t\<close> arrives at \<open>q\<close>, no contact button below \<open>q\<close> stops
  it. \<open>calm_below\<close>: the click reaches \<open>q\<close>, and no node of the path below \<open>q\<close>
  is a navigation link with its closing listener or an in-page link to an existing target.
\<close>

definition scroll_target :: "env \<Rightarrow> element \<Rightarrow> node \<Rightarrow> node option" where
  "scroll_target v r p =
     (case subtree r p of
        None \<Rightarrow> None
      | Some link \<Rightarrow>
          (case getAttribute_href link of
             None \<Rightarrow> None
           | Some targetId \<Rightarrow>
               if length targetId > 1
               then (case querySelector_string v targetId of
                       Inl e \<Rightarrow> None
                     | Inr found \<Rightarrow> found)
               else None))"

definition scrolls :: "env \<Rightarrow> element \<Rightarrow> node \<Rightarrow> bool" where
  "scrolls v r p = (matches_at r HashLink p \<and> scroll_target v r p \<noteq> None)"

definition reaches :: "listeners \<Rightarrow> node \<Rightarrow> node \<Rightarrow> bool" where
  "reaches ls t q =
     (q \<in> set (composedPath t) \<and>
      (\<forall>p\<in>set (takeWhile (\<lambda>p. p \<noteq> q) (composedPath t)). (p, ContactClick) \<notin> set ls))"

definition calm_below :: "env \<Rightarrow> element \<Rightarrow> listeners \<Rightarrow> node \<Rightarrow> node \<Rightarrow> bool" where
  "calm_below v r ls t q =
     (reaches ls t q \<and>
      (\<forall>p\<in>set (takeWhile (\<lambda>p. p \<noteq> q) (composedPath t)).
         (p, CloseMobileMenu) \<notin> set ls \<and> \<not> scrolls v r p))"

text \<open>
  Three pages for the examples: a grid page with a header, a page with an in-page link
  and no header, and a page that is both a profile and a grid page and whose biography
  section has no \<open>.bio-content\<close>.
\<close>

definition grid_example :: element where
  "grid_example =
     Element ''html'' [] None '''' [
       Element ''body'' [] None '''' [
         Element ''header'' [''main-header''] None '''' [
           Element ''button'' [''menu-toggle''] None '''' [],
           Element ''a'' [''nav-link''] (Some ''/team/'') ''https://example.org/team/'' [],
           Element ''a'' [''nav-link''] (Some ''#grid'') ''https://example.org/#grid'' []],
         Element ''div'' [''employees-grid''] None '''' [
           Element ''div'' [''employee-card''] None '''' [
             Element ''h3'' [] None '''' [],
             Element ''a'' [''btn-view-profile''] (Some ''/e/7/'') ''https://example.org/e/7/'' [],
             Element ''span'' [''btn-contact''] None '''' []]]]]"

definition env_example :: env where
  "env_example =
     \<lparr>querySelector_string = (\<lambda>sel. if sel = ''#grid'' then Inr (Some [0, 1]) else Inr None),
      offsetHeight = (\<lambda>p. 64), boundingTop = (\<lambda>p. 500), pageYOffset = 100\<rparr>"

definition page_example :: page where
  "page_example =
     \<lparr>documentElement = grid_example, bioSection = None,
      ratingElements = [\<lparr>rating_value_text = Some ''3.7'', rating_stars = Some []\<rparr>]\<rparr>"

definition state_example :: click_state where
  "state_example =
     \<lparr>body_classList = [''nav-open''], location_href = ''https://example.org/'',
      scrollTo_top = None, style_transform = [], timeouts = [], console = [], uncaught = [],
      default_prevented = False, propagation_stopped = False\<rparr>"

definition bare_example :: element where
  "bare_example =
     Element ''html'' [] None '''' [
       Element ''body'' [] None '''' [
         Element ''a'' [] (Some ''#team'') ''https://example.org/#team'' [],
         Element ''section'' [] None '''' []]]"

definition bare_env :: env where
  "bare_env =
     \<lparr>querySelector_string = (\<lambda>sel. if sel = ''#team'' then Inr (Some [0, 1]) else Inr None),
      offsetHeight = (\<lambda>p. 0), boundingTop = (\<lambda>p. 800), pageYOffset = 0\<rparr>"

definition profile_example :: page where
  "profile_example =
     \<lparr>documentElement =
        Element ''html'' [] None '''' [
          Element ''body'' [] None '''' [
            Element ''div'' [''employee-profile''] None '''' [
              Element ''div'' [''bio-section''] None '''' []],
            Element ''div'' [''employees-grid''] None '''' [
              Element ''div'' [''employee-card''] None '''' []]]],
      bioSection = Some \<lparr>bioContent = None, bio_appended = []\<rparr>,
      ratingElements = []\<rparr>"

text \<open>
  A grid page whose one rating element has its \<open>.rating-stars\<close> container and no
  \<open>.rating-value\<close> node; the contact button of the card is a \<open>span\<close>.
\<close>

definition unrated_grid :: element where
  "unrated_grid =
     Element ''html'' [] None '''' [
       Element ''body'' [] None '''' [
         Element ''div'' [''employees-grid''] None '''' [
           Element ''div'' [''employee-card''] None '''' [
             Element ''h3'' [] None '''' [],
             Element ''div'' [''employee-rating''] None '''' [
               Element ''div'' [''rating-stars''] None '''' []],
             Element ''a'' [''btn-view-profile''] (Some ''/e/7/'') ''https://example.org/e/7/'' [],
             Element ''span'' [''btn-contact''] None '''' []]]]]"

definition unrated_example :: page where
  "unrated_example =
     \<lparr>documentElement = unrated_grid, bioSection = None,
      ratingElements = [\<lparr>rating_value_text = None, rating_stars = Some []\<rparr>]\<rparr>"

text \<open>
  Six pages for the mobile menu, none with a biography or a rating: a page with a
  navigation link and no toggle; a page whose toggle is an in-page link to the navigation;
  a page with two toggles; a page whose navigation link is inside the toggle; a page
  whose toggle holds an in-page link to the navigation; and a grid page with a contact
  button inside the toggle and another inside a navigation link that is an in-page link
  to the grid.
\<close>

definition plain_page :: "element \<Rightarrow> page" where
  "plain_page r = \<lparr>documentElement = r, bioSection = None, ratingElements = []\<rparr>"

definition no_toggle_example :: element where
  "no_toggle_example =
     Element ''html'' [] None '''' [
       Element ''body'' [] None '''' [
         Element ''nav'' [] None '''' [
           Element ''a'' [''nav-link''] (Some ''/team/'') ''https://example.org/team/'' []]]]"

definition link_toggle_example :: element where
  "link_toggle_example =
     Element ''html'' [] None '''' [
       Element ''body'' [] None '''' [
         Element ''header'' [''main-header''] None '''' [
           Element ''a'' [''menu-toggle''] (Some ''#nav'') ''https://example.org/#nav'' []],
         Element ''nav'' [] None '''' []]]"

definition link_toggle_env :: env where
  "link_toggle_env =
     \<lparr>querySelector_string = (\<lambda>sel. if sel = ''#nav'' then Inr (Some [0, 1]) else Inr None),
      offsetHeight = (\<lambda>p. 64), boundingTop = (\<lambda>p. 80), pageYOffset = 0\<rparr>"

definition two_toggles_example :: element where
  "two_toggles_example =
     Element ''html'' [] None '''' [
       Element ''body'' [] None '''' [
         Element ''button'' [''menu-toggle''] None '''' [],
         Element ''button'' [''menu-toggle''] None '''' []]]"

definition nested_link_example :: element where
  "nested_link_example =
     Element ''html'' [] None '''' [
       Element ''body'' [] None '''' [
         Element ''div'' [''menu-toggle''] None '''' [
           Element ''a'' [''nav-link''] (Some ''/team/'') ''https://example.org/team/'' []]]]"

definition nested_hash_example :: element where
  "nested_hash_example =
     Element ''html'' [] None '''' [
       Element ''body'' [] None '''' [
         Element ''header'' [''main-header''] None '''' [
           Element ''div'' [''menu-toggle''] None '''' [
             Element ''a'' [] (Some ''#nav'') ''https://example.org/#nav'' []]],
         Element ''nav'' [] None '''' []]]"

definition stopped_example :: element where
  "stopped_example =
     Element ''html'' [] None '''' [
       Element ''body'' [] None '''' [
         Element ''button'' [''menu-toggle''] None '''' [
           Element ''span'' [''btn-contact''] None '''' []],
         Element ''div'' [''employees-grid''] None '''' [],
         Element ''a'' [''nav-link''] (Some ''#grid'') ''https://example.org/#grid'' [
           Element ''span'' [''btn-contact''] None '''' []]]]"


section \<open>Header visibility: the scroll rule\<close>

lemma scroll_listener_Some:
  assumes "header s = Some h"
  shows "\<exists>h'. scroll_listener y s = Inr \<lparr>header = Some h', lastScrollY = y\<rparr> \<and>
     (''header-scrolled'' \<in> set (header_classList h') \<longleftrightarrow> 10 < y) \<and>
     (header_transform h' = ''translateY(-100%)'' \<longleftrightarrow> lastScrollY s < y \<and> 100 < y) \<and>
     (header_transform h' = ''translateY(0)'' \<longleftrightarrow> \<not> (lastScrollY s < y \<and> 100 < y))"
  using assms
  by (simp add: scroll_listener_def Let_def classList_add_def classList_remove_def)

lemma scroll_events_Some:
  "header s = Some h \<Longrightarrow>
   \<exists>h'. scroll_events ys s = Inr \<lparr>header = Some h', lastScrollY = last (lastScrollY s # ys)\<rparr>"
proof (induction ys arbitrary: s h)
  case Nil
  then show ?case by (cases s) simp
next
  case (Cons y ys)
  from scroll_listener_Some [OF Cons.prems, of y]
  obtain h1 where h1: "scroll_listener y s = Inr \<lparr>header = Some h1, lastScrollY = y\<rparr>"
    by blast
  have "header \<lparr>header = Some h1, lastScrollY = y\<rparr> = Some h1" by simp
  from Cons.IH [OF this] h1 show ?case by (cases ys) auto
qed

lemma scroll_events_snoc:
  "scroll_events (ys @ [y]) s =
     (case scroll_events ys s of Inl e \<Rightarrow> Inl e | Inr s' \<Rightarrow> scroll_listener y s')"
  by (induction ys arbitrary: s) (auto split: sum.splits)

text \<open>
  Claim C6. On a page that has the header, after any run of scroll events \<open>ys\<close> and one
  more event at offset \<open>y\<close>: the header has the class \<open>header-scrolled\<close> exactly when
  \<open>y > 10\<close>, whatever the direction; it is translated off-screen exactly when \<open>y\<close>
  exceeds both the previous offset (the offset of the event before, or the one read at
  initialisation) and 100; otherwise, so whenever the offset did not increase, it is
  shown (\<open>translateY(0)\<close>).
\<close>

theorem header_scroll_rule:
  assumes "header s = Some h"
  shows "\<exists>h'. scroll_events (ys @ [y]) s = Inr \<lparr>header = Some h', lastScrollY = y\<rparr> \<and>
     (''header-scrolled'' \<in> set (header_classList h') \<longleftrightarrow> 10 < y) \<and>
     (header_transform h' = ''translateY(-100%)'' \<longleftrightarrow> last (lastScrollY s # ys) < y \<and> 100 < y) \<and>
     (header_transform h' = ''translateY(0)'' \<longleftrightarrow> \<not> (last (lastScrollY s # ys) < y \<and> 100 < y))"
proof -
  from scroll_events_Some [OF assms, of ys] obtain h1 where
    h1: "scroll_events ys s = Inr \<lparr>header = Some h1, lastScrollY = last (lastScrollY s # ys)\<rparr>"
    by blast
  let ?s1 = "\<lparr>header = Some h1, lastScrollY = last (lastScrollY s # ys)\<rparr>"
  have "header ?s1 = Some h1" by simp
  from scroll_listener_Some [OF this, of y] h1 show ?thesis
    by (simp add: scroll_events_snoc)
qed

text \<open>
  Scrolling down to 50, on to 150 and back up to 120: the header is styled as scrolled
  and shown.
\<close>

theorem header_scroll_rule_witness:
  "\<exists>h'. scroll_events ([50, 150] @ [120])
           (initHeaderScroll (Some \<lparr>header_classList = [''main-header''], header_transform = ''''\<rparr>) 0)
         = Inr \<lparr>header = Some h', lastScrollY = 120\<rparr> \<and>
        ''header-scrolled'' \<in> set (header_classList h') \<and>
        header_transform h' = ''translateY(0)''"
  using header_scroll_rule [of "initHeaderScroll (Some \<lparr>header_classList = [''main-header''], header_transform = ''''\<rparr>) 0"
      "\<lparr>header_classList = [''main-header''], header_transform = ''''\<rparr>" "[50, 150]" 120]
  by (auto simp add: initHeaderScroll_def)


section \<open>Biography truncation: toggling and the short biography\<close>

lemma toggleBioContent_twice:
  assumes "style_maxHeight c = ''120px''" "button_text b = show_more @ '' '' @ arrow_down"
  shows "(case toggleBioContent c b of (c', b') \<Rightarrow> toggleBioContent c' b') = (c, b)"
  using assms by (cases c, cases b) (simp add: toggleBioContent_def)

lemma toggle_click_twice:
  assumes "bioContent sec = Some c" "style_maxHeight c = ''120px''"
    "k < length (bio_appended sec)"
    "button_text (bio_appended sec ! k) = show_more @ '' '' @ arrow_down"
  shows "toggle_click k (toggle_click k sec) = sec"
proof -
  obtain c' b' where t1: "toggleBioContent c (bio_appended sec ! k) = (c', b')"
    by (cases "toggleBioContent c (bio_appended sec ! k)")
  with toggleBioContent_twice [OF assms(2) assms(4)]
  have t2: "toggleBioContent c' b' = (c, bio_appended sec ! k)" by simp
  show ?thesis using assms(1,3) t1 t2
    by (cases sec) (simp add: toggle_click_def)
qed

lemma toggle_click_even:
  assumes "bioContent sec = Some c" "style_maxHeight c = ''120px''"
    "k < length (bio_appended sec)"
    "button_text (bio_appended sec ! k) = show_more @ '' '' @ arrow_down"
  shows "(toggle_click k ^^ (2 * m)) sec = sec"
proof (induction m)
  case 0
  show ?case by simp
next
  case (Suc m)
  have "(toggle_click k ^^ (2 * Suc m)) sec
          = (toggle_click k ^^ (2 * m)) (toggle_click k (toggle_click k sec))"
    by (simp add: funpow_swap1)
  with Suc toggle_click_twice [OF assms] show ?case by simp
qed

text \<open>
  Claim C5. For a biography block whose content is higher than 120 at load,
  \<open>initBioSection\<close> leaves the block collapsed (\<open>max-height\<close> 120px) with a toggle
  button labelled "show more" and the down arrow; clicking that button an even number of
  times gives back exactly this state of the section: the 120px cap, the label, and
  everything else.
\<close>

theorem bio_toggle_even:
  assumes "bioContent sec = Some c" and "scrollHeight c > 120" and "even n"
  shows "\<exists>sec0 c0 b0. initBioSection (Some sec) = Inr (Some sec0) \<and>
           bioContent sec0 = Some c0 \<and> style_maxHeight c0 = ''120px'' \<and>
           bio_appended sec0 = bio_appended sec @ [b0] \<and>
           button_text b0 = show_more @ '' '' @ arrow_down \<and>
           (toggle_click (length (bio_appended sec)) ^^ n) sec0 = sec0"
proof -
  let ?c0 = "c\<lparr>style_maxHeight := ''120px'', style_overflow := ''hidden''\<rparr>"
  let ?sec0 = "sec\<lparr>bioContent := Some ?c0, bio_appended := bio_appended sec @ [createBioToggleButton]\<rparr>"
  have init: "initBioSection (Some sec) = Inr (Some ?sec0)"
    using assms(1,2) by (simp add: initBioSection_def)
  have label: "button_text createBioToggleButton = show_more @ '' '' @ arrow_down"
    by (simp add: createBioToggleButton_def Let_def)
  from assms(3) obtain m where n: "n = 2 * m" by (auto elim: evenE)
  have "(toggle_click (length (bio_appended sec)) ^^ (2 * m)) ?sec0 = ?sec0"
    by (rule toggle_click_even [where c = ?c0]) (simp_all add: label)
  with init label n show ?thesis by simp
qed

text \<open>A biography of height 300, toggled four times.\<close>

theorem bio_toggle_even_witness:
  "\<exists>sec0 c0 b0.
     initBioSection (Some \<lparr>bioContent = Some \<lparr>scrollHeight = 300, style_maxHeight = '''', style_overflow = ''''\<rparr>,
                           bio_appended = []\<rparr>) = Inr (Some sec0) \<and>
     bioContent sec0 = Some c0 \<and> style_maxHeight c0 = ''120px'' \<and>
     bio_appended sec0 = [b0] \<and>
     button_text b0 = show_more @ '' '' @ arrow_down \<and>
     (toggle_click 0 ^^ 4) sec0 = sec0"
  using bio_toggle_even [of "\<lparr>bioContent = Some \<lparr>scrollHeight = 300, style_maxHeight = '''', style_overflow = ''''\<rparr>,
                           bio_appended = []\<rparr>" "\<lparr>scrollHeight = 300, style_maxHeight = '''', style_overflow = ''''\<rparr>" 4]
  by simp

text \<open>
  Claim C9. For a biography block whose content is at most 120 high at load,
  \<open>initBioSection\<close> returns the section as it was: the content keeps its style (no
  cap, no clipping) and no toggle button is appended.
\<close>

theorem bio_short_unchanged:
  assumes "bioContent sec = Some c" and "scrollHeight c \<le> 120"
  shows "initBioSection (Some sec) = Inr (Some sec)"
  using assms by (simp add: initBioSection_def)

theorem bio_short_unchanged_witness:
  "initBioSection (Some \<lparr>bioContent = Some \<lparr>scrollHeight = 120, style_maxHeight = '''', style_overflow = ''''\<rparr>,
                         bio_appended = []\<rparr>)
   = Inr (Some \<lparr>bioContent = Some \<lparr>scrollHeight = 120, style_maxHeight = '''', style_overflow = ''''\<rparr>,
                bio_appended = []\<rparr>)"
  using bio_short_unchanged [of "\<lparr>bioContent = Some \<lparr>scrollHeight = 120, style_maxHeight = '''', style_overflow = ''''\<rparr>,
                         bio_appended = []\<rparr>" "\<lparr>scrollHeight = 120, style_maxHeight = '''', style_overflow = ''''\<rparr>"]
  by simp


section \<open>Rating stars: the fill rule\<close>

lemma stars_loop_five:
  "stars_loop 1 R [] = [create_star 1 R, create_star 2 R, create_star 3 R, create_star 4 R, create_star 5 R]"
  by (simp add: stars_loop.simps)

lemma filled_create_star: "filled (create_star i R) = int_le i R"
  by (simp add: filled_def create_star_def)

lemma count_filled:
  "length (filter filled (stars_loop 1 R [])) = spec_filled_count R"
proof (cases R)
  case (Finite r)
  have fl: "of_int \<lfloor>r\<rfloor> \<le> r" "r < of_int \<lfloor>r\<rfloor> + 1"
    by linarith+
  consider "\<lfloor>r\<rfloor> \<le> 0" | "\<lfloor>r\<rfloor> = 1" | "\<lfloor>r\<rfloor> = 2" | "\<lfloor>r\<rfloor> = 3" | "\<lfloor>r\<rfloor> = 4" | "5 \<le> \<lfloor>r\<rfloor>"
    by linarith
  then show ?thesis
  proof cases
    case 1
    with fl have "r < 1" by linarith
    with 1 show ?thesis
      by (simp add: Finite stars_loop_five filled_create_star int_le_def spec_filled_count_def)
  next
    case 6
    with fl have "5 \<le> r" by linarith
    with 6 show ?thesis
      by (simp add: Finite stars_loop_five filled_create_star int_le_def spec_filled_count_def)
  qed (use fl in \<open>simp_all add: Finite stars_loop_five filled_create_star int_le_def spec_filled_count_def\<close>)
qed (simp_all add: stars_loop_five filled_create_star int_le_def spec_filled_count_def)

lemma render_rating_stars:
  assumes "rating_value_text re = Some txt" and "rating_stars re = Some old"
  shows "\<exists>stars. render_rating pf re = Inr (re\<lparr>rating_stars := Some stars\<rparr>) \<and>
           length stars = 5 \<and>
           (\<forall>k<5. star_innerHTML (stars ! k) = star_glyph \<and>
                   filled (stars ! k) = int_le (int k + 1) (or_zero (pf txt))) \<and>
           length (filter filled stars) = spec_filled_count (or_zero (pf txt))"
proof -
  let ?R = "or_zero (pf txt)"
  have r: "render_rating pf re = Inr (re\<lparr>rating_stars := Some (stars_loop 1 ?R [])\<rparr>)"
    using assms by (simp add: render_rating_def)
  have each: "\<forall>k<5. star_innerHTML (stars_loop 1 ?R [] ! k) = star_glyph \<and>
                   filled (stars_loop 1 ?R [] ! k) = int_le (int k + 1) ?R"
  proof (intro allI impI)
    fix k :: nat assume "k < 5"
    then consider "k = 0" | "k = 1" | "k = 2" | "k = 3" | "k = 4" by linarith
    then show "star_innerHTML (stars_loop 1 ?R [] ! k) = star_glyph \<and>
                   filled (stars_loop 1 ?R [] ! k) = int_le (int k + 1) ?R"
      by cases (simp_all add: stars_loop_five create_star_def filled_def)
  qed
  have len: "length (stars_loop 1 ?R []) = 5" by (simp add: stars_loop_five)
  show ?thesis
  proof (intro exI conjI)
    show "render_rating pf re = Inr (re\<lparr>rating_stars := Some (stars_loop 1 ?R [])\<rparr>)"
      by (rule r)
    show "length (stars_loop 1 ?R []) = 5" by (rule len)
    show "\<forall>k<5. star_innerHTML (stars_loop 1 ?R [] ! k) = star_glyph \<and>
                   filled (stars_loop 1 ?R [] ! k) = int_le (int k + 1) ?R"
      by (rule each)
    show "length (filter filled (stars_loop 1 ?R [])) = spec_filled_count ?R"
      by (rule count_filled)
  qed
qed

lemma initRatingStars_length: "length (fst (initRatingStars pf res)) = length res"
  by (induction res) (simp_all split: sum.splits)

lemma initRatingStars_reached:
  assumes "j < length res" and "\<forall>i\<le>j. rating_value_text (res ! i) \<noteq> None"
  shows "render_rating pf (res ! j) = Inr (fst (initRatingStars pf res) ! j)"
  using assms
proof (induction res arbitrary: j)
  case Nil
  then show ?case by simp
next
  case (Cons r rs)
  from Cons.prems(2) have "rating_value_text ((r # rs) ! 0) \<noteq> None" by blast
  then have "rating_value_text r \<noteq> None" by simp
  then obtain r' where r': "render_rating pf r = Inr r'"
    by (cases "rating_stars r") (auto simp add: render_rating_def)
  show ?case
  proof (cases j)
    case 0
    with r' show ?thesis by simp
  next
    case (Suc k)
    with Cons.prems(1) have k: "k < length rs" by simp
    have "\<forall>i\<le>k. rating_value_text (rs ! i) \<noteq> None"
    proof (intro allI impI)
      fix i assume "i \<le> k"
      with Suc have "Suc i \<le> j" by simp
      with Cons.prems(2) have "rating_value_text ((r # rs) ! Suc i) \<noteq> None" by blast
      then show "rating_value_text (rs ! i) \<noteq> None" by simp
    qed
    from Cons.IH [OF k this] Suc r' show ?thesis by simp
  qed
qed

lemma render_rating_no_container:
  "rating_value_text re = Some txt \<Longrightarrow> rating_stars re = None \<Longrightarrow> render_rating pf re = Inr re"
  by (simp add: render_rating_def)

text \<open>
  Claim C1, as amended. Take a rating element \<open>j\<close> that has its \<open>.rating-value\<close>
  node, with text \<open>txt\<close>, and that the \<open>forEach\<close> reaches: no rating element before
  it lacks that node. \<open>initRatingStars\<close> reads \<open>R\<close> from the text (0 when
  \<open>parseFloat\<close> gives \<open>NaN\<close>). If the element has a \<open>.rating-stars\<close> container,
  the content of the container is replaced by exactly five star glyphs, the filled ones
  are exactly those whose 1-based position is \<open>\<le> R\<close>, and so
  \<open>min(5, max(0, floor R))\<close> stars are filled. If it has no container, the element
  is left as it was: no star is rendered for it. Whatever the elements after \<open>j\<close>
  are, the run keeps every rating element in its place.
\<close>

theorem rating_stars_rule:
  assumes "j < length res"
    and "\<forall>i<j. rating_value_text (res ! i) \<noteq> None"
    and "rating_value_text (res ! j) = Some txt"
  shows "length (fst (initRatingStars pf res)) = length res \<and>
         (pf txt = NaN \<longrightarrow> or_zero (pf txt) = Finite 0) \<and>
         (case rating_stars (res ! j) of
            None \<Rightarrow> fst (initRatingStars pf res) ! j = res ! j
          | Some old \<Rightarrow>
              (\<exists>stars. fst (initRatingStars pf res) ! j = (res ! j)\<lparr>rating_stars := Some stars\<rparr> \<and>
                 length stars = 5 \<and>
                 (\<forall>k<5. star_innerHTML (stars ! k) = star_glyph \<and>
                         filled (stars ! k) = int_le (int k + 1) (or_zero (pf txt))) \<and>
                 length (filter filled stars) = spec_filled_count (or_zero (pf txt))))"
proof (intro conjI)
  show "length (fst (initRatingStars pf res)) = length res"
    by (rule initRatingStars_length)
  show "pf txt = NaN \<longrightarrow> or_zero (pf txt) = Finite 0"
    by (simp add: or_zero_def)
  have "\<forall>i\<le>j. rating_value_text (res ! i) \<noteq> None"
  proof (intro allI impI)
    fix i assume "i \<le> j"
    then consider "i < j" | "i = j" by linarith
    then show "rating_value_text (res ! i) \<noteq> None"
      using assms(2,3) by cases simp_all
  qed
  from initRatingStars_reached [OF assms(1) this, of pf]
  have reached: "render_rating pf (res ! j) = Inr (fst (initRatingStars pf res) ! j)" .
  show "case rating_stars (res ! j) of
          None \<Rightarrow> fst (initRatingStars pf res) ! j = res ! j
        | Some old \<Rightarrow>
            (\<exists>stars. fst (initRatingStars pf res) ! j = (res ! j)\<lparr>rating_stars := Some stars\<rparr> \<and>
               length stars = 5 \<and>
               (\<forall>k<5. star_innerHTML (stars ! k) = star_glyph \<and>
                       filled (stars ! k) = int_le (int k + 1) (or_zero (pf txt))) \<and>
               length (filter filled stars) = spec_filled_count (or_zero (pf txt)))"
  proof (cases "rating_stars (res ! j)")
    case None
    from render_rating_no_container [OF assms(3) None, of pf] reached None
    show ?thesis by simp
  next
    case (Some old)
    from render_rating_stars [OF assms(3) Some, of pf] obtain stars where
      st: "render_rating pf (res ! j) = Inr ((res ! j)\<lparr>rating_stars := Some stars\<rparr>)"
      "length stars = 5"
      "\<forall>k<5. star_innerHTML (stars ! k) = star_glyph \<and>
                     filled (stars ! k) = int_le (int k + 1) (or_zero (pf txt))"
      "length (filter filled stars) = spec_filled_count (or_zero (pf txt))"
      by blast
    from st(1) reached have "fst (initRatingStars pf res) ! j = (res ! j)\<lparr>rating_stars := Some stars\<rparr>"
      by simp
    with st(2,3,4) Some show ?thesis by auto
  qed
qed

text \<open>
  Three rating elements: the first has no container, the second has the text 3.7, the
  third has no \<open>.rating-value\<close> node. In the second, stars 1, 2 and 3 are filled, 4 and
  5 are not.
\<close>

theorem rating_stars_rule_witness:
  "\<exists>stars. fst (initRatingStars parse_example
             [\<lparr>rating_value_text = Some ''abc'', rating_stars = None\<rparr>,
              \<lparr>rating_value_text = Some ''3.7'', rating_stars = Some []\<rparr>,
              \<lparr>rating_value_text = None, rating_stars = Some []\<rparr>]) ! 1
           = \<lparr>rating_value_text = Some ''3.7'', rating_stars = Some stars\<rparr> \<and>
         length stars = 5 \<and>
         map filled stars = [True, True, True, False, False] \<and>
         length (filter filled stars) = 3"
proof -
  let ?res = "[\<lparr>rating_value_text = Some ''abc'', rating_stars = None\<rparr>,
              \<lparr>rating_value_text = Some ''3.7'', rating_stars = Some []\<rparr>,
              \<lparr>rating_value_text = None, rating_stars = Some []\<rparr>]"
  from rating_stars_rule [of 1 ?res "''3.7''" parse_example]
  obtain stars where
    s: "fst (initRatingStars parse_example ?res) ! 1
          = \<lparr>rating_value_text = Some ''3.7'', rating_stars = Some stars\<rparr>"
    and l: "length stars = 5"
    and f: "\<forall>k<5. filled (stars ! k) = int_le (int k + 1) (Finite 3.7)"
    and c: "length (filter filled stars) = spec_filled_count (Finite 3.7)"
    by (auto simp add: or_zero_def parse_example_def)
  from f have "filled (stars ! 0)" "filled (stars ! 1)" "filled (stars ! 2)"
    "\<not> filled (stars ! 3)" "\<not> filled (stars ! 4)"
    by (simp_all add: int_le_def)
  with l have "map filled stars = [True, True, True, False, False]"
    by (simp add: list_eq_iff_nth_eq nth_Cons' less_Suc_eq numeral_eq_Suc)
  with s l c show ?thesis by (simp add: spec_filled_count_def)
qed

text \<open>
  Claim C1 as the specification states it speaks of every rating element. A rating
  element with the text 3 and no \<open>.rating-stars\<close> container is skipped by the guard
  \<open>if (starsContainer)\<close>: the element is left as it was, no star is rendered for it.
  And a rating element with the text 3.7 and a container, placed after an element that
  has no \<open>.rating-value\<close> node, is never reached, since line 474 throws at the element
  before it: it gets no star either.
\<close>

theorem rating_no_container_counterexample:
  "initRatingStars parse_example [\<lparr>rating_value_text = Some ''3'', rating_stars = None\<rparr>]
     = ([\<lparr>rating_value_text = Some ''3'', rating_stars = None\<rparr>], None) \<and>
   initRatingStars parse_example
     [\<lparr>rating_value_text = None, rating_stars = Some []\<rparr>,
      \<lparr>rating_value_text = Some ''3.7'', rating_stars = Some []\<rparr>]
     = ([\<lparr>rating_value_text = None, rating_stars = Some []\<rparr>,
         \<lparr>rating_value_text = Some ''3.7'', rating_stars = Some []\<rparr>], Some TypeError)"
  by (simp add: render_rating_def)


section \<open>The timer queue: idle time, and the modal's share of a tick\<close>

lemma run_due_idle:
  assumes "\<forall>tm\<in>set (timers s). now s < fst tm"
  shows "run_due s = s"
proof -
  from assms have "filter (is_due (now s)) (timers s) = []"
    by (auto simp add: filter_empty_conv is_due_def)
  moreover from assms have "filter (\<lambda>tm. \<not> is_due (now s) tm) (timers s) = timers s"
    by (auto simp add: filter_id_conv is_due_def)
  ultimately show ?thesis by (simp add: run_due_def)
qed

lemma advance_idle:
  "\<forall>tm\<in>set (timers s). now s + n < fst tm \<Longrightarrow> advance n s = s\<lparr>now := now s + n\<rparr>"
proof (induction n arbitrary: s)
  case 0
  show ?case by simp
next
  case (Suc n)
  have "tick s = s\<lparr>now := now s + 1\<rparr>"
    unfolding tick_def by (rule run_due_idle) (use Suc.prems in auto)
  moreover have "advance n (s\<lparr>now := now s + 1\<rparr>) = (s\<lparr>now := now s + 1\<rparr>)\<lparr>now := now (s\<lparr>now := now s + 1\<rparr>) + n\<rparr>"
    by (rule Suc.IH) (use Suc.prems in auto)
  ultimately show ?case by simp
qed

lemma advance_add: "advance (m + n) s = advance n (advance m s)"
  by (induction m arbitrary: s) simp_all

lemma animateToastOut_frame:
  "modals (animateToastOut t s) = modals s"
  "modal_timers (animateToastOut t s) = modal_timers s"
  "now (animateToastOut t s) = now s"
  by (simp_all add: animateToastOut_def setTimeout_def modal_timers_def Let_def)

lemma fold_animateToastOut_frame:
  "modals (fold animateToastOut ts s) = modals s \<and>
   modal_timers (fold animateToastOut ts s) = modal_timers s \<and>
   now (fold animateToastOut ts s) = now s"
  by (induction ts arbitrary: s) (simp_all add: animateToastOut_frame)

lemma filter_absent: "k \<notin> f ` set xs \<Longrightarrow> filter (\<lambda>x. f x \<noteq> k) xs = xs"
  by (induction xs) auto

lemma fire_modals: "modals (fire cb s) = modal_step cb (modals s)"
  by (cases cb) (auto simp add: fold_animateToastOut_frame animateToastOut_frame modal_attached_def
      filter_absent Let_def)

lemma fire_modal_timers: "modal_timers (fire cb s) = modal_timers s"
proof (cases cb)
  case SweepToasts
  then show ?thesis by (simp add: fold_animateToastOut_frame)
next
  case (ExpireToast k)
  then show ?thesis by (simp add: animateToastOut_frame)
qed (simp_all add: modal_timers_def Let_def)

lemma fire_now: "now (fire cb s) = now s"
  by (cases cb) (auto simp add: fold_animateToastOut_frame animateToastOut_frame Let_def)

lemma fold_fire_view:
  "modals (fold (\<lambda>tm. fire (snd tm)) l s) = fold modal_step (map snd l) (modals s) \<and>
   modal_timers (fold (\<lambda>tm. fire (snd tm)) l s) = modal_timers s \<and>
   now (fold (\<lambda>tm. fire (snd tm)) l s) = now s"
  by (induction l arbitrary: s) (simp_all add: fire_modals fire_modal_timers fire_now)

lemma modal_step_other: "\<not> is_modal_callback cb \<Longrightarrow> modal_step cb ms = ms"
  by (cases cb) simp_all

lemma fold_modal_step_filter:
  "fold modal_step (map snd l) ms = fold modal_step (map snd (filter (\<lambda>tm. is_modal_callback (snd tm)) l)) ms"
  by (induction l arbitrary: ms) (simp_all add: modal_step_other)

lemma tick_view:
  "now (tick s) = now s + 1"
  "modal_timers (tick s) = filter (\<lambda>tm. \<not> is_due (now s + 1) tm) (modal_timers s)"
  "modals (tick s) = fold modal_step (map snd (filter (is_due (now s + 1)) (modal_timers s))) (modals s)"
proof -
  let ?s = "s\<lparr>now := now s + 1\<rparr>"
  let ?sb = "?s\<lparr>timers := filter (\<lambda>tm. \<not> is_due (now ?s) tm) (timers ?s)\<rparr>"
  have t: "tick s = fold (\<lambda>tm. fire (snd tm)) (filter (is_due (now ?s)) (timers ?s)) ?sb"
    by (simp add: tick_def run_due_def)
  show "now (tick s) = now s + 1" by (simp add: t fold_fire_view)
  have "modal_timers ?sb = filter (\<lambda>tm. \<not> is_due (now s + 1) tm) (modal_timers s)"
    by (simp add: modal_timers_def conj_commute)
  then show "modal_timers (tick s) = filter (\<lambda>tm. \<not> is_due (now s + 1) tm) (modal_timers s)"
    by (simp add: t fold_fire_view)
  have f: "filter (\<lambda>tm. is_modal_callback (snd tm)) (filter (is_due (now s + 1)) (timers s))
        = filter (is_due (now s + 1)) (modal_timers s)"
    by (simp add: modal_timers_def conj_commute)
  have "modals (tick s) = fold modal_step (map snd (filter (is_due (now s + 1)) (timers s))) (modals s)"
    by (simp add: t fold_fire_view)
  also have "\<dots> = fold modal_step
      (map snd (filter (\<lambda>tm. is_modal_callback (snd tm)) (filter (is_due (now s + 1)) (timers s)))) (modals s)"
    by (rule fold_modal_step_filter)
  also have "\<dots> = fold modal_step (map snd (filter (is_due (now s + 1)) (modal_timers s))) (modals s)"
    by (simp only: f)
  finally show "modals (tick s) = fold modal_step (map snd (filter (is_due (now s + 1)) (modal_timers s))) (modals s)" .
qed


section \<open>The portfolio modal: opened and closed twice\<close>

lemma show_step_keeps:
  "modal_id (show_step m) = modal_id m"
  "wired (show_step m) = wired m"
  by (simp_all add: show_step_def wired_def has_content_def modal_querySelector_def)

lemma close_step_keeps: "modal_id (close_step m) = modal_id m"
  by (simp add: close_step_def)

lemma fold_show_only:
  "\<forall>cb\<in>set cbs. cb = ShowModal k \<Longrightarrow>
   \<exists>m'. fold modal_step cbs [m] = [m'] \<and> modal_id m' = modal_id m \<and> wired m' = wired m"
proof (induction cbs arbitrary: m)
  case Nil
  show ?case by simp
next
  case (Cons cb cbs)
  let ?m1 = "if modal_id m = k then show_step m else m"
  from Cons.prems have cb: "cb = ShowModal k" and rest: "\<forall>cb\<in>set cbs. cb = ShowModal k"
    by simp_all
  from Cons.IH [OF rest, of ?m1] obtain m' where
    m': "fold modal_step cbs [?m1] = [m']" "modal_id m' = modal_id ?m1" "wired m' = wired ?m1"
    by blast
  have "modal_id ?m1 = modal_id m" "wired ?m1 = wired m" by (simp_all add: show_step_keeps)
  with m' cb show ?case by (simp add: update_modal_def)
qed

lemma fold_modal_step_Nil: "fold modal_step cbs [] = []"
proof (induction cbs)
  case Nil
  show ?case by simp
next
  case (Cons cb cbs)
  then show ?case by (cases cb) (simp_all add: update_modal_def)
qed

lemma fold_with_remove:
  "\<lbrakk>\<forall>cb\<in>set cbs. cb = ShowModal k \<or> cb = RemoveModal k; RemoveModal k \<in> set cbs; modal_id m = k\<rbrakk>
   \<Longrightarrow> fold modal_step cbs [m] = []"
proof (induction cbs arbitrary: m)
  case Nil
  then show ?case by simp
next
  case (Cons cb cbs)
  from Cons.prems(1) consider "cb = ShowModal k" | "cb = RemoveModal k" by auto
  then show ?case
  proof cases
    case 1
    with Cons.prems have r: "RemoveModal k \<in> set cbs" by auto
    have "fold modal_step cbs [show_step m] = []"
      by (rule Cons.IH) (use Cons.prems r in \<open>auto simp add: show_step_keeps\<close>)
    with 1 Cons.prems(3) show ?thesis by (simp add: update_modal_def)
  next
    case 2
    with Cons.prems(3) show ?thesis by (simp add: fold_modal_step_Nil)
  qed
qed

lemma tick_opened: "opened k B s \<Longrightarrow> opened k B (tick s)"
proof -
  assume o: "opened k B s"
  then obtain m where m: "modals s = [m]" "modal_id m = k" "wired m" by (auto simp add: opened_def)
  let ?due = "filter (is_due (now s + 1)) (modal_timers s)"
  from o have "\<forall>cb\<in>set (map snd ?due). cb = ShowModal k" by (auto simp add: opened_def)
  from fold_show_only [OF this, of m] obtain m' where
    "fold modal_step (map snd ?due) [m] = [m']" "modal_id m' = modal_id m" "wired m' = wired m"
    by blast
  with m have "\<exists>m. modals (tick s) = [m] \<and> modal_id m = k \<and> wired m" by (simp add: tick_view)
  moreover from o have "\<forall>tm\<in>set (modal_timers (tick s)).
      snd tm = ShowModal k \<and> now (tick s) < fst tm \<and> fst tm \<le> B"
    by (auto simp add: tick_view opened_def is_due_def)
  ultimately show ?thesis by (simp add: opened_def)
qed

lemma advance_opened: "opened k B s \<Longrightarrow> opened k B (advance n s)"
  by (induction n arbitrary: s) (simp_all add: tick_opened)

lemma advance_now: "now (advance n s) = now s + n"
  by (induction n arbitrary: s) (simp_all add: tick_view)

lemma closing_timers:
  "closing k T s \<Longrightarrow> tm \<in> set (modal_timers s) \<Longrightarrow>
   now s < fst tm \<and> fst tm \<le> T \<and> (snd tm = ShowModal k \<or> snd tm = RemoveModal k)"
  by (simp add: closing_def)

lemma closing_before:
  "closing k T s \<Longrightarrow> now s < T \<Longrightarrow>
   (\<exists>m. modals s = [m] \<and> modal_id m = k) \<and> (T, RemoveModal k) \<in> set (modal_timers s) \<and>
   (\<forall>tm\<in>set (modal_timers s). snd tm = RemoveModal k \<longrightarrow> fst tm = T)"
  by (simp add: closing_def)

lemma closing_after: "closing k T s \<Longrightarrow> T \<le> now s \<Longrightarrow> modals s = []"
  by (simp add: closing_def)

lemma tick_modal_timers_subset:
  "tm \<in> set (modal_timers (tick s)) \<Longrightarrow> tm \<in> set (modal_timers s) \<and> now (tick s) < fst tm"
  by (simp add: tick_view is_due_def)

lemma tick_closing: "closing k T s \<Longrightarrow> closing k T (tick s)"
proof -
  assume c: "closing k T s"
  let ?due = "filter (is_due (now s + 1)) (modal_timers s)"
  have tms: "\<forall>tm\<in>set (modal_timers (tick s)). now (tick s) < fst tm \<and> fst tm \<le> T \<and>
          (snd tm = ShowModal k \<or> snd tm = RemoveModal k)"
  proof
    fix tm assume "tm \<in> set (modal_timers (tick s))"
    with tick_modal_timers_subset [of tm s]
    have "tm \<in> set (modal_timers s)" "now (tick s) < fst tm" by simp_all
    with closing_timers [OF c, of tm]
    show "now (tick s) < fst tm \<and> fst tm \<le> T \<and> (snd tm = ShowModal k \<or> snd tm = RemoveModal k)"
      by simp
  qed
  have kinds: "\<forall>tm\<in>set (modal_timers s). snd tm = ShowModal k \<or> snd tm = RemoveModal k"
    using closing_timers [OF c] by blast
  consider "now s + 1 < T" | "now s + 1 = T" | "T \<le> now s" by linarith
  then show ?thesis
  proof cases
    case 1
    then have "now s < T" by simp
    from closing_before [OF c this] obtain m where m: "modals s = [m]" "modal_id m = k"
      and r: "(T, RemoveModal k) \<in> set (modal_timers s)"
      and ronly: "\<forall>tm\<in>set (modal_timers s). snd tm = RemoveModal k \<longrightarrow> fst tm = T"
      by blast
    have "\<forall>cb\<in>set (map snd ?due). cb = ShowModal k"
    proof
      fix cb assume "cb \<in> set (map snd ?due)"
      then obtain tm where tm: "tm \<in> set (modal_timers s)" "fst tm \<le> now s + 1" "cb = snd tm"
        by (auto simp add: is_due_def)
      with ronly 1 have "snd tm \<noteq> RemoveModal k" by auto
      with kinds tm show "cb = ShowModal k" by auto
    qed
    from fold_show_only [OF this, of m] obtain m' where
      "fold modal_step (map snd ?due) [m] = [m']" "modal_id m' = modal_id m" by blast
    with m have a: "\<exists>m. modals (tick s) = [m] \<and> modal_id m = k" by (simp add: tick_view)
    from r 1 have b: "(T, RemoveModal k) \<in> set (modal_timers (tick s))"
      by (simp add: tick_view is_due_def)
    from ronly have d: "\<forall>tm\<in>set (modal_timers (tick s)). snd tm = RemoveModal k \<longrightarrow> fst tm = T"
      by (simp add: tick_view)
    have "now (tick s) < T" using 1 by (simp add: tick_view)
    with tms a b d show ?thesis unfolding closing_def by simp
  next
    case 2
    then have "now s < T" by simp
    from closing_before [OF c this] obtain m where m: "modals s = [m]" "modal_id m = k"
      and r: "(T, RemoveModal k) \<in> set (modal_timers s)"
      by blast
    from r 2 have "(T, RemoveModal k) \<in> set ?due" by (simp add: is_due_def)
    then have "snd (T, RemoveModal k) \<in> snd ` set ?due" by (rule imageI)
    then have rin: "RemoveModal k \<in> set (map snd ?due)" by simp
    from kinds have "\<forall>cb\<in>set (map snd ?due). cb = ShowModal k \<or> cb = RemoveModal k"
      by simp
    from fold_with_remove [OF this rin m(2)] m have "modals (tick s) = []"
      by (simp add: tick_view)
    moreover have "\<not> now (tick s) < T" using 2 by (simp add: tick_view)
    ultimately show ?thesis using tms unfolding closing_def by simp
  next
    case 3
    from closing_after [OF c 3] have "modals (tick s) = []"
      by (simp add: tick_view fold_modal_step_Nil)
    moreover have "\<not> now (tick s) < T" using 3 by (simp add: tick_view)
    ultimately show ?thesis using tms unfolding closing_def by simp
  qed
qed

lemma advance_closing: "closing k T s \<Longrightarrow> closing k T (advance n s)"
  by (induction n arbitrary: s) (simp_all add: tick_closing)

lemma closing_done:
  assumes "closing k T s" and "T \<le> now s"
  shows "modals s = [] \<and> modal_timers s = []"
proof -
  have "modal_timers s = []"
  proof (cases "modal_timers s")
    case (Cons tm tms)
    then have "tm \<in> set (modal_timers s)" by simp
    from closing_timers [OF assms(1) this] assms(2) show ?thesis by simp
  qed simp
  with closing_after [OF assms] show ?thesis by simp
qed

lemma closing_length: "closing k T s \<Longrightarrow> length (modals s) = (if now s < T then 1 else 0)"
  using closing_before [of k T s] closing_after [of k T s] by (cases "now s < T") auto

lemma portfolio_modal_tokens: "class_tokens ''portfolio-modal'' = [''portfolio-modal'']"
  by code_simp

lemma open_view:
  "now (openPortfolioModal parse i t d s) = now s"
  "timers (openPortfolioModal parse i t d s) = timers s @ [(now s + 10, ShowModal (next_node s))]"
  "next_node (openPortfolioModal parse i t d s) = next_node s + 1"
  by (simp_all add: openPortfolioModal_def createModal_def setTimeout_def Let_def
      split: option.splits)

lemma open_wired:
  assumes "parses_whole parse i t d"
  shows "\<exists>m. modals (openPortfolioModal parse i t d s) = modals s @ [m] \<and>
             modal_id m = next_node s \<and> wired m"
proof -
  let ?m = "(createModal (next_node s))\<lparr>modal_innerHTML := modal_markup i t d,
              modal_children := parse (modal_markup i t d)\<rparr>"
  from assms have c: "modal_querySelector ?m (ByClass ''modal-close'') \<noteq> None"
    and b: "modal_querySelector ?m (ByClass ''modal-content'') \<noteq> None"
    by (simp_all add: parses_whole_def modal_querySelector_def createModal_def
        portfolio_modal_tokens Let_def)
  from c obtain closeButton where cb: "modal_querySelector ?m (ByClass ''modal-close'') = Some closeButton"
    by blast
  let ?w = "?m\<lparr>modal_close_bound := True, modal_backdrop_bound := True\<rparr>"
  have "modal_querySelector ?w sel = modal_querySelector ?m sel" for sel
    by (simp add: modal_querySelector_def)
  with b have "wired ?w" by (simp add: wired_def has_content_def)
  moreover have "modal_id ?w = next_node s" by (simp add: createModal_def)
  moreover have "modals (openPortfolioModal parse i t d s) = modals s @ [?w]"
    using cb by (simp add: openPortfolioModal_def setTimeout_def Let_def)
  ultimately show ?thesis by blast
qed

lemma open_opened:
  assumes "modals s = []" and "modal_timers s = []" and "parses_whole parse i t d"
  shows "opened (next_node s) (now s + 10) (openPortfolioModal parse i t d s)"
proof -
  from open_wired [OF assms(3), of s] assms(1) obtain m where
    "modals (openPortfolioModal parse i t d s) = [m]" "modal_id m = next_node s" "wired m"
    by auto
  moreover have "modal_timers (openPortfolioModal parse i t d s) = [(now s + 10, ShowModal (next_node s))]"
    using assms(2) by (simp add: modal_timers_def open_view)
  ultimately show ?thesis by (simp add: opened_def open_view)
qed

lemma open_now: "now (openPortfolioModal parse imageSrc title description s) = now s"
  by (rule open_view)

lemma click_closing:
  assumes "opened k B s" and "B \<le> now s + 300" and "part \<noteq> Content"
  shows "closing k (now s + 300) (click_modal k part s)"
proof -
  from assms(1) obtain m where m: "modals s = [m]" "modal_id m = k" "wired m"
    and tms: "\<forall>tm\<in>set (modal_timers s). snd tm = ShowModal k \<and> now s < fst tm \<and> fst tm \<le> B"
    by (auto simp add: opened_def)
  from m assms(3) have c: "click_modal k part s = closeModal k s"
    by (cases part) (simp_all add: click_modal_def wired_def)
  from m have nl: "\<not> lacks_content k s" by (simp add: lacks_content_def wired_def)
  have mt: "modal_timers (closeModal k s) = modal_timers s @ [(now s + 300, RemoveModal k)]"
    using nl by (simp add: closeModal_def setTimeout_def modal_timers_def Let_def)
  have n: "now (closeModal k s) = now s"
    by (simp add: closeModal_def setTimeout_def Let_def)
  have ms: "\<exists>m'. modals (closeModal k s) = [m'] \<and> modal_id m' = k"
    using m nl by (simp add: closeModal_def setTimeout_def Let_def update_modal_def close_step_keeps)
  have t1: "\<forall>tm\<in>set (modal_timers s @ [(now s + 300, RemoveModal k)]).
       now s < fst tm \<and> fst tm \<le> now s + 300 \<and> (snd tm = ShowModal k \<or> snd tm = RemoveModal k)"
    using tms assms(2) by auto
  have t2: "(now s + 300, RemoveModal k) \<in> set (modal_timers s @ [(now s + 300, RemoveModal k)])"
    by simp
  have t3: "\<forall>tm\<in>set (modal_timers s @ [(now s + 300, RemoveModal k)]).
       snd tm = RemoveModal k \<longrightarrow> fst tm = now s + 300"
    using tms by auto
  from ms t1 t2 t3 show ?thesis
    unfolding c closing_def mt n by simp
qed

lemma round_opened:
  assumes "modals s = []" and "modal_timers s = []" and "parses_whole parse i t d"
  shows "opened (next_node s) (now s + 10) (advance w (openPortfolioModal parse i t d s))"
  by (rule advance_opened) (rule open_opened [OF assms])

lemma round_closing:
  assumes "modals s = []" and "modal_timers s = []" and "parses_whole parse i t d"
    and "part \<noteq> Content"
  shows "closing (next_node s) (now s + w + 300)
           (advance e (click_modal (next_node s) part (advance w (openPortfolioModal parse i t d s))))"
proof -
  let ?s2 = "advance w (openPortfolioModal parse i t d s)"
  have n: "now ?s2 = now s + w" by (simp add: advance_now open_now)
  have "closing (next_node s) (now ?s2 + 300) (click_modal (next_node s) part ?s2)"
    by (rule click_closing [OF round_opened [OF assms(1,2,3)]]) (simp_all add: n assms(4))
  then show ?thesis unfolding n by (rule advance_closing)
qed

lemma click_modal_now: "now (click_modal k part s) = now s"
  by (cases part)
     (simp_all add: click_modal_def closeModal_def setTimeout_def Let_def split: option.splits)

lemma round_count_open:
  assumes "modals s = []" and "modal_timers s = []" and "parses_whole parse i t d"
  shows "length (modals (advance w (openPortfolioModal parse i t d s))) = 1"
  using round_opened [OF assms, of w] by (auto simp add: opened_def)

lemma round_count_closing:
  assumes "modals s = []" and "modal_timers s = []" and "parses_whole parse i t d"
    and "part \<noteq> Content"
  shows "length (modals (advance e (click_modal (next_node s) part
                   (advance w (openPortfolioModal parse i t d s))))) = (if e < 300 then 1 else 0)"
proof -
  let ?s3 = "advance e (click_modal (next_node s) part (advance w (openPortfolioModal parse i t d s)))"
  have "now ?s3 = now s + w + e" by (simp add: advance_now click_modal_now open_now)
  with closing_length [OF round_closing [OF assms, of w e]]
  show "length (modals ?s3) = (if e < 300 then 1 else 0)" by simp
qed

lemma round_clean:
  assumes "modals s = []" and "modal_timers s = []" and "parses_whole parse i t d"
    and "part \<noteq> Content" and "300 \<le> a"
  shows "modals (open_then_close parse i t d w part a s) = [] \<and>
         modal_timers (open_then_close parse i t d w part a s) = []"
proof -
  let ?s3 = "advance a (click_modal (next_node s) part (advance w (openPortfolioModal parse i t d s)))"
  have "now ?s3 = now s + w + a" by (simp add: advance_now click_modal_now open_now)
  with assms(5) have "now s + w + 300 \<le> now ?s3" by simp
  from closing_done [OF round_closing [OF assms(1,2,3,4), of w a] this]
  show ?thesis by (simp add: open_then_close_def)
qed

text \<open>
  Claim C4, at an input where the script departs from it. The page is ready with no
  modal. A portfolio item whose title is the text \<open><textarea>\<close> is clicked:
  \<open>openPortfolioModal\<close> appends the modal, sets its show timer and then throws at
  line 295, since the close button is not among the elements of the modal; the listener
  of the backdrop is never registered. Two seconds later the backdrop is clicked: nothing
  closes. 300 ms after the click the modal is still in the document, and shown. A second
  round of the same leaves two modal nodes.
\<close>

theorem modal_markup_title_stuck:
  "(let s = page_ready False [];
        r1 = open_then_close parse_markup_example ''/media/a.png'' ''<textarea>'' '''' 2000 Backdrop 300 s;
        r2 = open_then_close parse_markup_example ''/media/a.png'' ''<textarea>'' '''' 2000 Backdrop 300 r1
    in thrown (openPortfolioModal parse_markup_example ''/media/a.png'' ''<textarea>'' '''' s) = [TypeError] \<and>
       map modal_backdrop_bound
         (modals (openPortfolioModal parse_markup_example ''/media/a.png'' ''<textarea>'' '''' s)) = [False] \<and>
       now r1 = 2300 \<and> map modal_id (modals r1) = [0] \<and> map modal_opacity (modals r1) = [''1''] \<and>
       now r2 = 4600 \<and> map modal_id (modals r2) = [0, 1])"
proof -
  let ?open = "openPortfolioModal parse_markup_example ''/media/a.png'' ''<textarea>'' ''''"
  let ?s = "page_ready False []"
  let ?a = "?open ?s"
  let ?b = "tick (?a\<lparr>now := 9\<rparr>)"
  let ?c = "?b\<lparr>now := 2300\<rparr>"
  let ?d = "?open ?c"
  let ?e = "tick (?d\<lparr>now := 2309\<rparr>)"
  let ?f = "?e\<lparr>now := 4600\<rparr>"
  have a0: "thrown ?a = [TypeError]" "map modal_backdrop_bound (modals ?a) = [False]"
    by code_simp+
  have a1: "\<forall>tm\<in>set (timers ?a). now ?a + 9 < fst tm" by code_simp
  have a2: "now ?a = 0" by code_simp
  from advance_idle [OF a1] a2 have a3: "advance 9 ?a = ?a\<lparr>now := 9\<rparr>" by simp
  have b1: "\<forall>tm\<in>set (timers ?b). now ?b + 1990 < fst tm" by code_simp
  have b2: "now ?b = 10" by code_simp
  from advance_idle [OF b1] b2 have b3: "advance 1990 ?b = ?b\<lparr>now := 2000\<rparr>" by simp
  have "advance 2000 ?a = advance 1990 (advance 1 (advance 9 ?a))"
    using advance_add [of 9 1991 ?a] advance_add [of 1 1990 "advance 9 ?a"] by simp
  with a3 b3 have w1: "advance 2000 ?a = ?b\<lparr>now := 2000\<rparr>" by simp
  have n0: "next_node ?s = 0" by code_simp
  have c1: "click_modal 0 Backdrop (?b\<lparr>now := 2000\<rparr>) = ?b\<lparr>now := 2000\<rparr>" by code_simp
  have c2: "\<forall>tm\<in>set (timers (?b\<lparr>now := 2000\<rparr>)). now (?b\<lparr>now := 2000\<rparr>) + 300 < fst tm" by code_simp
  from advance_idle [OF c2] have c3: "advance 300 (?b\<lparr>now := 2000\<rparr>) = ?c" by simp
  have r1: "open_then_close parse_markup_example ''/media/a.png'' ''<textarea>'' '''' 2000 Backdrop 300 ?s = ?c"
    by (simp only: open_then_close_def n0 w1 c1 c3)
  have d1: "\<forall>tm\<in>set (timers ?d). now ?d + 9 < fst tm" by code_simp
  have d2: "now ?d = 2300" by code_simp
  from advance_idle [OF d1] d2 have d3: "advance 9 ?d = ?d\<lparr>now := 2309\<rparr>" by simp
  have e1: "\<forall>tm\<in>set (timers ?e). now ?e + 1990 < fst tm" by code_simp
  have e2: "now ?e = 2310" by code_simp
  from advance_idle [OF e1] e2 have e3: "advance 1990 ?e = ?e\<lparr>now := 4300\<rparr>" by simp
  have "advance 2000 ?d = advance 1990 (advance 1 (advance 9 ?d))"
    using advance_add [of 9 1991 ?d] advance_add [of 1 1990 "advance 9 ?d"] by simp
  with d3 e3 have w2: "advance 2000 ?d = ?e\<lparr>now := 4300\<rparr>" by simp
  have n1: "next_node ?c = 1" by code_simp
  have f1: "click_modal 1 Backdrop (?e\<lparr>now := 4300\<rparr>) = ?e\<lparr>now := 4300\<rparr>" by code_simp
  have f2: "\<forall>tm\<in>set (timers (?e\<lparr>now := 4300\<rparr>)). now (?e\<lparr>now := 4300\<rparr>) + 300 < fst tm" by code_simp
  from advance_idle [OF f2] have f3: "advance 300 (?e\<lparr>now := 4300\<rparr>) = ?f" by simp
  have r2: "open_then_close parse_markup_example ''/media/a.png'' ''<textarea>'' '''' 2000 Backdrop 300 ?c = ?f"
    by (simp only: open_then_close_def n1 w2 f1 f3)
  have g: "now ?c = 2300" "map modal_id (modals ?c) = [0]" "map modal_opacity (modals ?c) = [''1'']"
    "now ?f = 4600" "map modal_id (modals ?f) = [0, 1]"
    by code_simp+
  show ?thesis
    unfolding Let_def r1 r2 using a0 g by simp
qed

text \<open>
  For comparison, titles and descriptions whose markup the parser reads whole (it finds
  the close button and the content box). From a document with no portfolio modal (and no
  modal timer pending), open the modal, wait any time \<open>w1\<close>, click its backdrop or its
  close button, wait \<open>a1\<close> of at least 300 ms, and do the same a second time. After each
  round the document has no modal node. Throughout, each created modal is one node: while
  a modal is open the document has exactly one modal node, and \<open>e\<close> ms after the close
  click it has one when \<open>e < 300\<close> and none from 300 ms on.
\<close>

lemma modal_open_close_twice:
  assumes "modals s = []" and "modal_timers s = []"
    and "parses_whole parse i1 t1 d1" and "parses_whole parse i2 t2 d2"
    and "p1 \<noteq> Content" and "p2 \<noteq> Content" and "300 \<le> a1" and "300 \<le> a2"
  shows "(let r1 = open_then_close parse i1 t1 d1 w1 p1 a1 s;
              r2 = open_then_close parse i2 t2 d2 w2 p2 a2 r1
          in modals r1 = [] \<and> modals r2 = [] \<and>
             length (modals (advance w1 (openPortfolioModal parse i1 t1 d1 s))) = 1 \<and>
             length (modals (advance e (click_modal (next_node s) p1
                       (advance w1 (openPortfolioModal parse i1 t1 d1 s))))) = (if e < 300 then 1 else 0) \<and>
             length (modals (advance w2 (openPortfolioModal parse i2 t2 d2 r1))) = 1 \<and>
             length (modals (advance e (click_modal (next_node r1) p2
                       (advance w2 (openPortfolioModal parse i2 t2 d2 r1))))) = (if e < 300 then 1 else 0))"
proof -
  let ?r1 = "open_then_close parse i1 t1 d1 w1 p1 a1 s"
  from round_clean [OF assms(1,2,3,5,7), of w1]
  have r1: "modals ?r1 = []" "modal_timers ?r1 = []" by simp_all
  from round_clean [OF r1 assms(4,6,8), of w2]
  have r2: "modals (open_then_close parse i2 t2 d2 w2 p2 a2 ?r1) = []" by simp
  note c1 = round_count_open [OF assms(1,2,3), of w1]
    round_count_closing [OF assms(1,2,3,5), of e w1]
  note c2 = round_count_open [OF r1 assms(4), of w2]
    round_count_closing [OF r1 assms(4,6), of e w2]
  from r1(1) r2 c1 c2 show ?thesis by (simp add: Let_def)
qed

text \<open>
  On the page as it is after \<open>initToastSystem\<close>, with two plain titles: a backdrop click
  after two seconds, then a close-button click after 5 ms, each followed by 300 ms.
\<close>

lemma modal_open_close_twice_example:
  "(let s = initToastSystem (page_ready False []);
        r1 = open_then_close parse_markup_example ''/media/a.png'' ''A'' ''first'' 2000 Backdrop 300 s;
        r2 = open_then_close parse_markup_example ''/media/b.png'' ''B'' '''' 5 CloseButton 300 r1
    in modals r1 = [] \<and> modals r2 = [] \<and>
       length (modals (advance 2000
         (openPortfolioModal parse_markup_example ''/media/a.png'' ''A'' ''first'' s))) = 1 \<and>
       length (modals (advance 299 (click_modal (next_node s) Backdrop
         (advance 2000 (openPortfolioModal parse_markup_example ''/media/a.png'' ''A'' ''first'' s))))) = 1)"
proof -
  have p: "parses_whole parse_markup_example ''/media/a.png'' ''A'' ''first''"
    "parses_whole parse_markup_example ''/media/b.png'' ''B'' ''''"
    by code_simp+
  from modal_open_close_twice [of "initToastSystem (page_ready False [])" parse_markup_example
      "''/media/a.png''" "''A''" "''first''" "''/media/b.png''" "''B''" "''''"
      Backdrop CloseButton 300 300 2000 5 299, OF _ _ p]
  show ?thesis
    by (simp add: Let_def initToastSystem_def page_ready_def setTimeout_def modal_timers_def)
qed


section \<open>Toasts: the default severity, and the sweep of \<open>initToastSystem\<close>\<close>

text \<open>
  Claim C10. A call \<open>showToast(message)\<close> with the severity omitted appends one toast
  whose class name is \<open>toast success\<close>: its class list is \<open>toast\<close>, \<open>success\<close>.
\<close>

theorem showToast_default_class:
  "\<exists>t. toasts (showToast message None s) = toasts s @ [t] \<and>
       toast_message t = message \<and>
       toast_className t = ''toast success'' \<and>
       class_tokens (toast_className t) = [''toast'', ''success'']"
  by (simp add: showToast_def createToastContainer_def setTimeout_def Let_def class_tokens_def
      ascii_whitespace_def)

text \<open>
  Claim C3, at the input where the script departs from it. The page is ready at time 0 and
  \<open>initToastSystem\<close> sets its sweep timer for 5000 ms. At 4000 ms the disabled contact
  button is clicked and \<open>showToast\<close> creates the toast: it is attached. Nobody clicks its
  close button. At 5000 ms the sweep finds it among the \<open>.toast\<close> elements and starts
  its exit animation; 1299 ms after its creation it is still attached, and at 5300 ms of
  the page, 1300 ms after its creation, it is removed: before its lifetime of 5000 ms.
\<close>

theorem toast_swept_early:
  "(let s0 = initToastSystem (page_ready False []);
        s1 = showToast contact_disabled_message (Some ''info'') (advance 4000 s0)
    in now s1 = 4000 \<and> toast_attached 0 s1 \<and>
       map toast_close (toasts s1) = [Some 1] \<and>
       toast_attached 0 (advance 1299 s1) \<and>
       now (advance 1300 s1) = 5300 \<and> toasts (advance 1300 s1) = [])"
proof -
  let ?t0 = "\<lparr>toast_id = 0, toast_className = ''toast info'', toast_message = contact_disabled_message,
              toast_close = Some 1, toast_animation = ''''\<rparr>"
  let ?t1 = "\<lparr>toast_id = 0, toast_className = ''toast info'', toast_message = contact_disabled_message,
              toast_close = Some 1, toast_animation = ''toastSlideOut 0.3s ease-in forwards''\<rparr>"
  let ?sa = "\<lparr>now = 0, timers = [(5000, SweepToasts)], toast_container = False, toasts = [],
              modals = [], next_node = 0, thrown = []\<rparr>"
  let ?sb = "\<lparr>now = 4000, timers = [(5000, SweepToasts), (9000, ExpireToast 0)],
              toast_container = True, toasts = [?t0], modals = [], next_node = 1, thrown = []\<rparr>"
  let ?sc = "\<lparr>now = 5000, timers = [(9000, ExpireToast 0), (5300, RemoveToast 0)],
              toast_container = True, toasts = [?t1], modals = [], next_node = 1, thrown = []\<rparr>"
  let ?sd = "\<lparr>now = 5300, timers = [(9000, ExpireToast 0)],
              toast_container = True, toasts = [], modals = [], next_node = 1, thrown = []\<rparr>"
  have a: "initToastSystem (page_ready False []) = ?sa"
    by (simp add: initToastSystem_def page_ready_def setTimeout_def)
  have b: "advance 4000 ?sa = ?sa\<lparr>now := 4000\<rparr>"
    using advance_idle [of ?sa 4000] by simp
  have c: "showToast contact_disabled_message (Some ''info'') (?sa\<lparr>now := 4000\<rparr>) = ?sb"
    by (simp add: showToast_def createToastContainer_def setTimeout_def Let_def)
  have d: "advance 999 ?sb = ?sb\<lparr>now := 4999\<rparr>"
    using advance_idle [of ?sb 999] by simp
  have tok: "has_class ''toast'' ''toast info''"
    by (simp add: has_class_def class_tokens_def ascii_whitespace_def)
  have e: "tick (?sb\<lparr>now := 4999\<rparr>) = ?sc"
    by (simp add: tick_def run_due_def is_due_def tok animateToastOut_def setTimeout_def)
  have f: "advance 299 ?sc = ?sc\<lparr>now := 5299\<rparr>"
    using advance_idle [of ?sc 299] by simp
  have g: "tick (?sc\<lparr>now := 5299\<rparr>) = ?sd"
    by (simp add: tick_def run_due_def is_due_def toast_attached_def)
  have h: "advance 1299 ?sb = ?sc\<lparr>now := 5299\<rparr>"
    using advance_add [of 999 300 ?sb] advance_add [of 1 299 "?sb\<lparr>now := 4999\<rparr>"] d e f
    by simp
  have i: "advance 1300 ?sb = ?sd"
    using advance_add [of 1299 1 ?sb] h g by simp
  show ?thesis
    unfolding Let_def a b c h i by (simp add: toast_attached_def)
qed

text \<open>
  For comparison, the same toast created once the sweep has run (the page is 6000 ms
  old): it stays attached through its 5000 ms and is removed 300 ms later; and a click
  on its close button after one second removes it 300 ms after the click.
\<close>

lemma toast_late_full_lifetime:
  "(let s0 = initToastSystem (page_ready False []);
        s1 = showToast contact_disabled_message (Some ''info'') (advance 6000 s0)
    in now s1 = 6000 \<and> toast_attached 0 s1 \<and>
       toast_attached 0 (advance 5299 s1) \<and>
       now (advance 5300 s1) = 11300 \<and> toasts (advance 5300 s1) = [])"
proof -
  let ?t0 = "\<lparr>toast_id = 0, toast_className = ''toast info'', toast_message = contact_disabled_message,
              toast_close = Some 1, toast_animation = ''''\<rparr>"
  let ?t1 = "\<lparr>toast_id = 0, toast_className = ''toast info'', toast_message = contact_disabled_message,
              toast_close = Some 1, toast_animation = ''toastSlideOut 0.3s ease-in forwards''\<rparr>"
  let ?sa = "\<lparr>now = 0, timers = [(5000, SweepToasts)], toast_container = False, toasts = [],
              modals = [], next_node = 0, thrown = []\<rparr>"
  let ?sb = "\<lparr>now = 5000, timers = [], toast_container = False, toasts = [],
              modals = [], next_node = 0, thrown = []\<rparr>"
  let ?sc = "\<lparr>now = 6000, timers = [(11000, ExpireToast 0)],
              toast_container = True, toasts = [?t0], modals = [], next_node = 1, thrown = []\<rparr>"
  let ?sd = "\<lparr>now = 11000, timers = [(11300, RemoveToast 0)],
              toast_container = True, toasts = [?t1], modals = [], next_node = 1, thrown = []\<rparr>"
  let ?se = "\<lparr>now = 11300, timers = [],
              toast_container = True, toasts = [], modals = [], next_node = 1, thrown = []\<rparr>"
  have a: "initToastSystem (page_ready False []) = ?sa"
    by (simp add: initToastSystem_def page_ready_def setTimeout_def)
  have b1: "advance 4999 ?sa = ?sa\<lparr>now := 4999\<rparr>"
    using advance_idle [of ?sa 4999] by simp
  have b2: "tick (?sa\<lparr>now := 4999\<rparr>) = ?sb"
    by (simp add: tick_def run_due_def is_due_def)
  have b3: "advance 1000 ?sb = ?sb\<lparr>now := 6000\<rparr>"
    using advance_idle [of ?sb 1000] by simp
  have b: "advance 6000 ?sa = ?sb\<lparr>now := 6000\<rparr>"
    using advance_add [of 4999 1001 ?sa] advance_add [of 1 1000 "?sa\<lparr>now := 4999\<rparr>"] b1 b2 b3
    by simp
  have c: "showToast contact_disabled_message (Some ''info'') (?sb\<lparr>now := 6000\<rparr>) = ?sc"
    by (simp add: showToast_def createToastContainer_def setTimeout_def Let_def)
  have d: "advance 4999 ?sc = ?sc\<lparr>now := 10999\<rparr>"
    using advance_idle [of ?sc 4999] by simp
  have e: "tick (?sc\<lparr>now := 10999\<rparr>) = ?sd"
    by (simp add: tick_def run_due_def is_due_def toast_attached_def animateToastOut_def setTimeout_def)
  have f: "advance 299 ?sd = ?sd\<lparr>now := 11299\<rparr>"
    using advance_idle [of ?sd 299] by simp
  have g: "tick (?sd\<lparr>now := 11299\<rparr>) = ?se"
    by (simp add: tick_def run_due_def is_due_def toast_attached_def)
  have h: "advance 5299 ?sc = ?sd\<lparr>now := 11299\<rparr>"
    using advance_add [of 4999 300 ?sc] advance_add [of 1 299 "?sc\<lparr>now := 10999\<rparr>"] d e f
    by simp
  have i: "advance 5300 ?sc = ?se"
    using advance_add [of 5299 1 ?sc] h g by simp
  show ?thesis
    unfolding Let_def a b c h i by (simp add: toast_attached_def)
qed

lemma toast_closed_by_click:
  "(let s0 = initToastSystem (page_ready False []);
        s1 = showToast contact_disabled_message (Some ''info'') (advance 6000 s0);
        s2 = click_toast_close 0 (advance 1000 s1)
    in now s2 = 7000 \<and> toast_attached 0 (advance 299 s2) \<and> toasts (advance 300 s2) = [])"
proof -
  let ?t0 = "\<lparr>toast_id = 0, toast_className = ''toast info'', toast_message = contact_disabled_message,
              toast_close = Some 1, toast_animation = ''''\<rparr>"
  let ?t1 = "\<lparr>toast_id = 0, toast_className = ''toast info'', toast_message = contact_disabled_message,
              toast_close = Some 1, toast_animation = ''toastSlideOut 0.3s ease-in forwards''\<rparr>"
  let ?sa = "\<lparr>now = 0, timers = [(5000, SweepToasts)], toast_container = False, toasts = [],
              modals = [], next_node = 0, thrown = []\<rparr>"
  let ?sb = "\<lparr>now = 5000, timers = [], toast_container = False, toasts = [],
              modals = [], next_node = 0, thrown = []\<rparr>"
  let ?sc = "\<lparr>now = 6000, timers = [(11000, ExpireToast 0)],
              toast_container = True, toasts = [?t0], modals = [], next_node = 1, thrown = []\<rparr>"
  let ?sd = "\<lparr>now = 7000, timers = [(11000, ExpireToast 0), (7300, RemoveToast 0)],
              toast_container = True, toasts = [?t1], modals = [], next_node = 1, thrown = []\<rparr>"
  let ?se = "\<lparr>now = 7300, timers = [(11000, ExpireToast 0)],
              toast_container = True, toasts = [], modals = [], next_node = 1, thrown = []\<rparr>"
  have a: "initToastSystem (page_ready False []) = ?sa"
    by (simp add: initToastSystem_def page_ready_def setTimeout_def)
  have b1: "advance 4999 ?sa = ?sa\<lparr>now := 4999\<rparr>"
    using advance_idle [of ?sa 4999] by simp
  have b2: "tick (?sa\<lparr>now := 4999\<rparr>) = ?sb"
    by (simp add: tick_def run_due_def is_due_def)
  have b3: "advance 1000 ?sb = ?sb\<lparr>now := 6000\<rparr>"
    using advance_idle [of ?sb 1000] by simp
  have b: "advance 6000 ?sa = ?sb\<lparr>now := 6000\<rparr>"
    using advance_add [of 4999 1001 ?sa] advance_add [of 1 1000 "?sa\<lparr>now := 4999\<rparr>"] b1 b2 b3
    by simp
  have c: "showToast contact_disabled_message (Some ''info'') (?sb\<lparr>now := 6000\<rparr>) = ?sc"
    by (simp add: showToast_def createToastContainer_def setTimeout_def Let_def)
  have d: "advance 1000 ?sc = ?sc\<lparr>now := 7000\<rparr>"
    using advance_idle [of ?sc 1000] by simp
  have e: "click_toast_close 0 (?sc\<lparr>now := 7000\<rparr>) = ?sd"
    by (simp add: click_toast_close_def animateToastOut_def setTimeout_def)
  have f: "advance 299 ?sd = ?sd\<lparr>now := 7299\<rparr>"
    using advance_idle [of ?sd 299] by simp
  have g: "tick (?sd\<lparr>now := 7299\<rparr>) = ?se"
    by (simp add: tick_def run_due_def is_due_def toast_attached_def)
  have i: "advance 300 ?sd = ?se"
    using advance_add [of 299 1 ?sd] f g by simp
  show ?thesis
    unfolding Let_def a b c d e f i by (simp add: toast_attached_def)
qed


section \<open>The tree and the propagation path\<close>

lemma positions_from_nth:
  "i < length cs \<Longrightarrow> q \<in> set (positions (cs ! i)) \<Longrightarrow> (k + i) # q \<in> set (positions_from k cs)"
proof (induction cs arbitrary: i k)
  case Nil
  then show ?case by simp
next
  case (Cons c cs)
  show ?case
  proof (cases i)
    case 0
    with Cons.prems show ?thesis by simp
  next
    case (Suc j)
    with Cons.prems have "j < length cs" "q \<in> set (positions (cs ! j))" by simp_all
    from Cons.IH [OF this, of "Suc k"] Suc show ?thesis by simp
  qed
qed

lemma positions_children:
  "i < length (children e) \<Longrightarrow> q \<in> set (positions (children e ! i)) \<Longrightarrow> i # q \<in> set (positions e)"
  using positions_from_nth [of i "children e" q 0] by (cases e) simp

lemma positions_Nil: "[] \<in> set (positions e)"
  by (cases e) simp

lemma subtree_positions: "subtree e p = Some x \<Longrightarrow> p \<in> set (positions e)"
proof (induction p arbitrary: e)
  case Nil
  show ?case by (rule positions_Nil)
next
  case (Cons i p)
  then have i: "i < length (children e)" and s: "subtree (children e ! i) p = Some x"
    by (simp_all split: if_splits)
  from Cons.IH [OF s] have "p \<in> set (positions (children e ! i))" .
  with i show ?case by (rule positions_children)
qed

lemma querySelectorAll_iff:
  "p \<in> set (querySelectorAll r sel) \<longleftrightarrow> matches_at r sel p"
proof
  assume "p \<in> set (querySelectorAll r sel)"
  then show "matches_at r sel p" by (simp add: querySelectorAll_def)
next
  assume m: "matches_at r sel p"
  then obtain e where "subtree r p = Some e"
    by (auto simp add: matches_at_def split: option.splits)
  then have "p \<in> set (positions r)" by (rule subtree_positions)
  with m show "p \<in> set (querySelectorAll r sel)" by (simp add: querySelectorAll_def)
qed

lemma querySelector_Some: "querySelector r sel = Some q \<Longrightarrow> matches_at r sel q"
proof -
  assume "querySelector r sel = Some q"
  then have "q \<in> set (querySelectorAll r sel)"
    by (auto simp add: querySelector_def split: list.splits)
  then show ?thesis by (simp add: querySelectorAll_iff)
qed

lemma composedPath_Nil: "composedPath [] = [[]]"
  by (simp add: composedPath.simps [of "[]"])

lemma composedPath_step: "t \<noteq> [] \<Longrightarrow> composedPath t = t # composedPath (butlast t)"
  by (simp add: composedPath.simps [of t])

lemma composedPath_length: "p \<in> set (composedPath t) \<Longrightarrow> length p \<le> length t"
proof (induction t rule: composedPath.induct)
  case (1 t)
  show ?case
  proof (cases "t = []")
    case True
    with "1.prems" show ?thesis by (simp add: composedPath_Nil)
  next
    case False
    from "1.prems" False have "p = t \<or> p \<in> set (composedPath (butlast t))"
      by (simp add: composedPath_step)
    then show ?thesis
    proof
      assume "p = t" then show ?thesis by simp
    next
      assume "p \<in> set (composedPath (butlast t))"
      from "1.IH" [OF False this] show ?thesis by simp
    qed
  qed
qed

lemma composedPath_distinct: "distinct (composedPath t)"
proof (induction t rule: composedPath.induct)
  case (1 t)
  show ?case
  proof (cases "t = []")
    case True
    then show ?thesis by (simp add: composedPath_Nil)
  next
    case False
    have "t \<notin> set (composedPath (butlast t))"
    proof
      assume "t \<in> set (composedPath (butlast t))"
      from composedPath_length [OF this] False show False
        by (cases t rule: rev_cases) simp_all
    qed
    with "1.IH" [OF False] False show ?thesis by (simp add: composedPath_step)
  qed
qed

lemma composedPath_self: "t \<in> set (composedPath t)"
  by (simp add: composedPath.simps [of t])

lemma composedPath_split:
  "q \<in> set (composedPath t) \<Longrightarrow>
   composedPath t = takeWhile (\<lambda>p. p \<noteq> q) (composedPath t) @ composedPath q"
proof (induction t rule: composedPath.induct)
  case (1 t)
  show ?case
  proof (cases "q = t")
    case True
    then show ?thesis by (simp add: composedPath.simps [of t])
  next
    case False
    with "1.prems" have ne: "t \<noteq> []" and q: "q \<in> set (composedPath (butlast t))"
      by (auto simp add: composedPath.simps [of t] split: if_splits)
    from "1.IH" [OF ne q] have
      ih: "composedPath (butlast t) = takeWhile (\<lambda>p. p \<noteq> q) (composedPath (butlast t)) @ composedPath q" .
    have c: "composedPath t = t # composedPath (butlast t)"
      using ne by (simp add: composedPath.simps [of t])
    have "takeWhile (\<lambda>p. p \<noteq> q) (composedPath t) = t # takeWhile (\<lambda>p. p \<noteq> q) (composedPath (butlast t))"
      using False by (simp add: c)
    with ih c show ?thesis by simp
  qed
qed

lemma composedPath_Cons: "composedPath q = q # tl (composedPath q)"
  by (simp add: composedPath.simps [of q])


section \<open>What the click listeners change\<close>

lemma smooth_scroll_click_frame:
  "location_href (smooth_scroll_click v r p s) = location_href s"
  "propagation_stopped (smooth_scroll_click v r p s) = propagation_stopped s"
  "body_classList (smooth_scroll_click v r p s) = body_classList s \<or>
   body_classList (smooth_scroll_click v r p s) = classList_remove (body_classList s) ''nav-open''"
  by (simp_all add: smooth_scroll_click_def scrollToElement_def throw_def closeMobileMenu_def Let_def
      split: option.splits sum.splits)

lemma card_click_frame:
  "body_classList (card_click r p t s) = body_classList s"
  "propagation_stopped (card_click r p t s) = propagation_stopped s"
  by (simp_all add: card_click_def split: option.splits)

lemma contact_click_frame:
  "body_classList (contact_click p s) = body_classList s"
  "location_href (contact_click p s) = location_href s"
  "propagation_stopped (contact_click p s)"
  by (simp_all add: contact_click_def animateButtonClick_def Let_def)

lemma menu_frame:
  "location_href (toggleMobileMenu s) = location_href s"
  "propagation_stopped (toggleMobileMenu s) = propagation_stopped s"
  "location_href (closeMobileMenu s) = location_href s"
  "propagation_stopped (closeMobileMenu s) = propagation_stopped s"
  by (simp_all add: toggleMobileMenu_def closeMobileMenu_def)

lemma run_location: "fst x \<noteq> CardClick \<Longrightarrow> location_href (run_handler v r t x s) = location_href s"
  by (cases x, cases "fst x")
     (simp_all add: smooth_scroll_click_frame menu_frame contact_click_frame)

lemma run_stopped:
  "fst x \<noteq> ContactClick \<Longrightarrow>
   propagation_stopped (run_handler v r t x s) = propagation_stopped s"
  by (cases x, cases "fst x")
     (simp_all add: smooth_scroll_click_frame menu_frame card_click_frame)

lemma run_stopped_keep:
  "propagation_stopped s \<Longrightarrow> propagation_stopped (run_handler v r t x s)"
  by (cases x, cases "fst x")
     (simp_all add: smooth_scroll_click_frame menu_frame card_click_frame contact_click_frame)

lemma run_contact: "propagation_stopped (run_handler v r t (ContactClick, p) s)"
  by (simp add: contact_click_frame)

lemma run_body:
  "removeAll ''nav-open'' (body_classList (run_handler v r t x s)) =
   removeAll ''nav-open'' (body_classList s)"
proof (cases x)
  case (Pair h p)
  show ?thesis
  proof (cases h)
    case SmoothScroll
    with Pair smooth_scroll_click_frame(3) [of v r p s] show ?thesis
      by (auto simp add: classList_remove_def)
  qed (simp_all add: Pair toggleMobileMenu_def closeMobileMenu_def classList_toggle_def
      classList_remove_def card_click_frame contact_click_frame)
qed

lemma run_closed_stays:
  "fst x \<noteq> ToggleMobileMenu \<Longrightarrow> \<not> menu_open s \<Longrightarrow> \<not> menu_open (run_handler v r t x s)"
proof (cases x)
  case (Pair h p)
  assume nt: "fst x \<noteq> ToggleMobileMenu" and c: "\<not> menu_open s"
  show ?thesis
  proof (cases h)
    case SmoothScroll
    with Pair c smooth_scroll_click_frame(3) [of v r p s] show ?thesis
      by (auto simp add: menu_open_def classList_remove_def)
  next
    case ToggleMobileMenu
    with Pair nt show ?thesis by simp
  qed (use c in \<open>simp_all add: Pair menu_open_def closeMobileMenu_def classList_remove_def
      card_click_frame contact_click_frame\<close>)
qed

lemma fold_location:
  "\<forall>x\<in>set hs. fst x \<noteq> CardClick \<Longrightarrow>
   location_href (fold (run_handler v r t) hs s) = location_href s"
  by (induction hs arbitrary: s) (simp_all add: run_location)

lemma fold_stopped:
  "\<forall>x\<in>set hs. fst x \<noteq> ContactClick \<Longrightarrow>
   propagation_stopped (fold (run_handler v r t) hs s) = propagation_stopped s"
  by (induction hs arbitrary: s) (simp_all add: run_stopped)

lemma fold_stopped_keep:
  "propagation_stopped s \<Longrightarrow> propagation_stopped (fold (run_handler v r t) hs s)"
  by (induction hs arbitrary: s) (simp_all add: run_stopped_keep)

lemma fold_contact:
  "(ContactClick, p) \<in> set hs \<Longrightarrow> propagation_stopped (fold (run_handler v r t) hs s)"
proof (induction hs arbitrary: s)
  case Nil
  then show ?case by simp
next
  case (Cons x hs)
  show ?case
  proof (cases "x = (ContactClick, p)")
    case True
    then show ?thesis by (simp add: fold_stopped_keep contact_click_frame)
  next
    case False
    with Cons.prems have "(ContactClick, p) \<in> set hs" by simp
    from Cons.IH [OF this] show ?thesis by simp
  qed
qed

lemma fold_body:
  "removeAll ''nav-open'' (body_classList (fold (run_handler v r t) hs s)) =
   removeAll ''nav-open'' (body_classList s)"
  by (induction hs arbitrary: s) (simp_all add: run_body)

lemma fold_closed_stays:
  "\<forall>x\<in>set hs. fst x \<noteq> ToggleMobileMenu \<Longrightarrow> \<not> menu_open s \<Longrightarrow>
   \<not> menu_open (fold (run_handler v r t) hs s)"
  by (induction hs arbitrary: s) (simp_all add: run_closed_stays)

lemma fold_closer:
  assumes "x \<in> set hs" and "\<And>s. \<not> menu_open (run_handler v r t x s)"
    and "\<forall>y\<in>set hs. fst y \<noteq> ToggleMobileMenu"
  shows "\<not> menu_open (fold (run_handler v r t) hs s)"
  using assms(1,3)
proof (induction hs arbitrary: s)
  case Nil
  then show ?case by simp
next
  case (Cons y hs)
  show ?case
  proof (cases "x \<in> set hs")
    case True
    with Cons show ?thesis by simp
  next
    case False
    with Cons.prems have "y = x" by simp
    with assms(2) have "\<not> menu_open (run_handler v r t y s)" by simp
    with Cons.prems(2) show ?thesis by (simp add: fold_closed_stays)
  qed
qed

lemma fold_card:
  assumes "(CardClick, c) \<in> set hs" and "\<forall>x\<in>set hs. snd x = c"
    and "\<And>s. location_href (card_click r c t s) = u"
  shows "location_href (fold (run_handler v r t) hs s) = u"
  using assms(1,2)
proof (induction hs arbitrary: s)
  case Nil
  then show ?case by simp
next
  case (Cons y hs)
  show ?case
  proof (cases "(CardClick, c) \<in> set hs")
    case True
    with Cons show ?thesis by simp
  next
    case False
    with Cons.prems have y: "y = (CardClick, c)" by simp
    have "\<forall>x\<in>set hs. fst x \<noteq> CardClick"
    proof
      fix x assume x: "x \<in> set hs"
      with Cons.prems(2) have "snd x = c" by simp
      with False x show "fst x \<noteq> CardClick" by (cases x) auto
    qed
    from fold_location [OF this] y assms(3) show ?thesis by simp
  qed
qed

lemma handlers_at_iff: "x \<in> set (handlers_at ls p) \<longleftrightarrow> snd x = p \<and> (p, fst x) \<in> set ls"
proof (cases x)
  case (Pair h q)
  show ?thesis
  proof
    assume "x \<in> set (handlers_at ls p)"
    then show "snd x = p \<and> (p, fst x) \<in> set ls" by (auto simp add: handlers_at_def)
  next
    assume a: "snd x = p \<and> (p, fst x) \<in> set ls"
    with Pair have "(p, h) \<in> set ls" "q = p" by simp_all
    then have "(\<lambda>l. (snd l, p)) (p, h) \<in> (\<lambda>l. (snd l, p)) ` {l \<in> set ls. fst l = p}"
      by (intro imageI) simp
    with Pair \<open>q = p\<close> show "x \<in> set (handlers_at ls p)" by (simp add: handlers_at_def)
  qed
qed

lemma handlers_at_append: "handlers_at (a @ b) p = handlers_at a p @ handlers_at b p"
  by (simp add: handlers_at_def)

lemma handlers_at_none: "\<forall>h. (p, h) \<notin> set ls \<Longrightarrow> handlers_at ls p = []"
  by (auto simp add: handlers_at_def filter_empty_conv)

lemma bubble_location:
  "\<forall>p\<in>set ps. (p, CardClick) \<notin> set ls \<Longrightarrow>
   location_href (bubble v r ls t ps s) = location_href s"
proof (induction ps arbitrary: s)
  case Nil
  show ?case by simp
next
  case (Cons p ps)
  have "\<forall>x\<in>set (handlers_at ls p). fst x \<noteq> CardClick"
    using Cons.prems by (auto simp add: handlers_at_iff)
  from fold_location [OF this] Cons show ?case by (simp add: Let_def)
qed

lemma bubble_body:
  "removeAll ''nav-open'' (body_classList (bubble v r ls t ps s)) =
   removeAll ''nav-open'' (body_classList s)"
  by (induction ps arbitrary: s) (simp_all add: Let_def fold_body)

lemma bubble_closed_stays:
  "\<forall>p\<in>set ps. (p, ToggleMobileMenu) \<notin> set ls \<Longrightarrow> \<not> menu_open s \<Longrightarrow>
   \<not> menu_open (bubble v r ls t ps s)"
proof (induction ps arbitrary: s)
  case Nil
  then show ?case by simp
next
  case (Cons p ps)
  have "\<forall>x\<in>set (handlers_at ls p). fst x \<noteq> ToggleMobileMenu"
    using Cons.prems(1) by (auto simp add: handlers_at_iff)
  from fold_closed_stays [OF this Cons.prems(2)] Cons show ?case by (simp add: Let_def)
qed

lemma bubble_append:
  "\<not> propagation_stopped s \<Longrightarrow> \<forall>p\<in>set pre. (p, ContactClick) \<notin> set ls \<Longrightarrow>
   bubble v r ls t (pre @ post) s = bubble v r ls t post (bubble v r ls t pre s) \<and>
   \<not> propagation_stopped (bubble v r ls t pre s)"
proof (induction pre arbitrary: s)
  case Nil
  then show ?case by simp
next
  case (Cons p pre)
  have "\<forall>x\<in>set (handlers_at ls p). fst x \<noteq> ContactClick"
    using Cons.prems(2) by (auto simp add: handlers_at_iff)
  from fold_stopped [OF this] Cons.prems(1)
  have ns: "\<not> propagation_stopped (fold (run_handler v r t) (handlers_at ls p) s)" by simp
  from Cons.IH [OF ns] Cons.prems(2) ns show ?case by (simp add: Let_def)
qed

lemma bubble_Cons_run:
  "\<forall>x\<in>set (handlers_at ls p). fst x \<noteq> ContactClick \<Longrightarrow> \<not> propagation_stopped s \<Longrightarrow>
   bubble v r ls t (p # ps) s = bubble v r ls t ps (fold (run_handler v r t) (handlers_at ls p) s)"
  by (simp add: Let_def fold_stopped)


section \<open>Employee cards: navigation and the contact button\<close>

lemma path_ancestors: "set (composedPath q) = insert q (set (ancestors q))"
  unfolding ancestors_def by (subst composedPath_Cons) simp

lemma self_not_ancestor: "q \<notin> set (ancestors q)"
  using composedPath_distinct [of q] unfolding ancestors_def
  by (subst (asm) composedPath_Cons) simp

lemma listeners_split:
  "fst (DOMContentLoaded pf pg) =
     initSmoothScroll (documentElement pg) @ initMobileMenu (documentElement pg) @
     fst (initPageSpecificFunctions pf pg)"
  by (simp add: DOMContentLoaded_def initCoreFunctions_def Let_def)

lemma smooth_entries:
  "(p, h) \<in> set (initSmoothScroll r) \<longleftrightarrow> h = SmoothScroll \<and> matches_at r HashLink p"
  by (auto simp add: initSmoothScroll_def querySelectorAll_iff)

lemma menu_entries:
  "(p, h) \<in> set (initMobileMenu r) \<longleftrightarrow>
     (h = ToggleMobileMenu \<and> querySelector r (ByClass ''menu-toggle'') = Some p) \<or>
     (h = CloseMobileMenu \<and> querySelector r (ByClass ''menu-toggle'') \<noteq> None \<and>
      matches_at r (ByClass ''nav-link'') p)"
  by (cases "querySelector r (ByClass ''menu-toggle'')")
     (auto simp add: initMobileMenu_def querySelectorAll_iff)

lemma grid_entries:
  "(p, h) \<in> set (fst (initEmployeesGridPage pf pg)) \<Longrightarrow>
     (h = CardClick \<and> matches_at (documentElement pg) (ByClass ''employee-card'') p) \<or>
     (h = ContactClick \<and> matches_at (documentElement pg) (ByClass ''btn-contact'') p)"
  by (auto simp add: initEmployeesGridPage_def initEmployeeCards_def initGridContactButtons_def
      querySelectorAll_iff Let_def split: option.splits)

lemma specific_entries:
  "(p, h) \<in> set (fst (initPageSpecificFunctions pf pg)) \<Longrightarrow>
     (h = CardClick \<and> matches_at (documentElement pg) (ByClass ''employee-card'') p) \<or>
     (h = ContactClick \<and> matches_at (documentElement pg) (ByClass ''btn-contact'') p)"
  using grid_entries [of p h pf pg]
  by (auto simp add: initPageSpecificFunctions_def split: option.splits if_splits)

lemma card_entry_is_card:
  "(p, CardClick) \<in> set (fst (DOMContentLoaded pf pg)) \<Longrightarrow>
   matches_at (documentElement pg) (ByClass ''employee-card'') p"
  using specific_entries [of p CardClick pf pg]
  by (auto simp add: listeners_split smooth_entries menu_entries)

lemma contact_entry_is_contact:
  "(p, ContactClick) \<in> set (fst (DOMContentLoaded pf pg)) \<Longrightarrow>
   matches_at (documentElement pg) (ByClass ''btn-contact'') p"
  using specific_entries [of p ContactClick pf pg]
  by (auto simp add: listeners_split smooth_entries menu_entries)

lemma toggle_entry_iff:
  "(p, ToggleMobileMenu) \<in> set (fst (DOMContentLoaded pf pg)) \<longleftrightarrow>
   querySelector (documentElement pg) (ByClass ''menu-toggle'') = Some p"
  using specific_entries [of p ToggleMobileMenu pf pg]
  by (auto simp add: listeners_split smooth_entries menu_entries)

lemma grid_ready:
  assumes "DOMContentLoaded pf pg = (ls, None)"
    and "querySelector (documentElement pg) (ByClass ''employees-grid'') \<noteq> None"
  shows "fst (initPageSpecificFunctions pf pg) =
           initEmployeeCards (documentElement pg) @ initGridContactButtons (documentElement pg)"
proof -
  from assms(1) have n: "snd (initPageSpecificFunctions pf pg) = None"
    by (simp add: DOMContentLoaded_def Let_def)
  let ?profile = "if querySelector (documentElement pg) (ByClass ''employee-profile'') \<noteq> None
                  then initEmployeeProfilePage pg else None"
  have p: "?profile = None"
  proof (cases ?profile)
    case (Some e)
    then have "snd (initPageSpecificFunctions pf pg) = Some e"
      by (simp add: initPageSpecificFunctions_def)
    with n show ?thesis by simp
  qed simp
  with assms(2) have g: "initPageSpecificFunctions pf pg = initEmployeesGridPage pf pg"
    by (simp add: initPageSpecificFunctions_def)
  show ?thesis
  proof (cases "snd (initRatingStars pf (ratingElements pg))")
    case (Some e)
    then have "snd (initEmployeesGridPage pf pg) = Some e"
      by (simp add: initEmployeesGridPage_def Let_def)
    with n g show ?thesis by simp
  next
    case None
    with g show ?thesis by (simp add: initEmployeesGridPage_def Let_def)
  qed
qed

lemma grid_ready_card:
  assumes "DOMContentLoaded pf pg = (ls, None)"
    and "querySelector (documentElement pg) (ByClass ''employees-grid'') \<noteq> None"
    and "matches_at (documentElement pg) (ByClass ''employee-card'') p"
  shows "(p, CardClick) \<in> set ls"
proof -
  from assms(3) have "(p, CardClick) \<in> set (initEmployeeCards (documentElement pg))"
    by (simp add: initEmployeeCards_def querySelectorAll_iff)
  with grid_ready [OF assms(1,2)] listeners_split [of pf pg] assms(1) show ?thesis
    by simp
qed

lemma grid_ready_contact:
  assumes "DOMContentLoaded pf pg = (ls, None)"
    and "querySelector (documentElement pg) (ByClass ''employees-grid'') \<noteq> None"
    and "matches_at (documentElement pg) (ByClass ''btn-contact'') p"
  shows "(p, ContactClick) \<in> set ls"
proof -
  from assms(3) have "(p, ContactClick) \<in> set (initGridContactButtons (documentElement pg))"
    by (simp add: initGridContactButtons_def querySelectorAll_iff)
  with grid_ready [OF assms(1,2)] listeners_split [of pf pg] assms(1) show ?thesis
    by simp
qed

lemma closest_None: "closest r t sel = None \<Longrightarrow> p \<in> set (composedPath t) \<Longrightarrow> \<not> matches_at r sel p"
  by (auto simp add: closest_def find_None_iff)

lemma find_app: "find P (xs @ ys) = (case find P xs of None \<Rightarrow> find P ys | Some x \<Rightarrow> Some x)"
  by (induction xs) simp_all

lemma closest_Some:
  assumes "closest r t sel = Some q"
  shows "\<exists>pre. composedPath t = pre @ q # ancestors q \<and> matches_at r sel q \<and>
           (\<forall>p\<in>set pre. \<not> matches_at r sel p) \<and> q \<notin> set pre \<and>
           set (pre @ [q]) \<inter> set (ancestors q) = {}"
proof -
  let ?P = "matches_at r sel"
  from assms have f: "find ?P (composedPath t) = Some q" by (simp add: closest_def)
  then have q: "q \<in> set (composedPath t)" and m: "?P q"
    by (auto simp add: find_Some_iff)
  let ?pre = "takeWhile (\<lambda>p. p \<noteq> q) (composedPath t)"
  from composedPath_split [OF q] have sp: "composedPath t = ?pre @ composedPath q" .
  have nq: "q \<notin> set ?pre" by (auto dest: set_takeWhileD)
  have cq: "composedPath q = q # ancestors q"
    unfolding ancestors_def by (rule composedPath_Cons)
  have pre: "\<forall>p\<in>set ?pre. \<not> ?P p"
  proof (cases "find ?P ?pre")
    case None
    then show ?thesis by (simp add: find_None_iff)
  next
    case (Some x)
    then have "x \<in> set ?pre" by (auto simp add: find_Some_iff)
    moreover have "find ?P (?pre @ composedPath q) = Some x" by (simp add: find_app Some)
    with f sp have "x = q" by simp
    ultimately show ?thesis using nq by simp
  qed
  from composedPath_distinct [of t] sp cq have "distinct (?pre @ q # ancestors q)" by simp
  then have "set (?pre @ [q]) \<inter> set (ancestors q) = {}" by auto
  with sp cq m pre nq show ?thesis by auto
qed

lemma card_navigates:
  assumes init: "DOMContentLoaded pf pg = (ls, None)"
    and grid: "querySelector (documentElement pg) (ByClass ''employees-grid'') \<noteq> None"
    and tgt: "subtree (documentElement pg) t = Some te"
    and cl: "closest (documentElement pg) t (ByClass ''employee-card'') = Some c"
    and outer: "find (matches_at (documentElement pg) (ByClass ''employee-card'')) (ancestors c) = None"
    and na: "closest (documentElement pg) t (ByTag ''a'') = None"
    and nb: "closest (documentElement pg) t (ByTag ''button'') = None"
    and nc: "closest (documentElement pg) t (ByClass ''btn-contact'') = None"
    and ce: "subtree (documentElement pg) c = Some ce"
    and link: "element_querySelector ce (ByClass ''btn-view-profile'') = Some l"
  shows "location_href (click v (documentElement pg) ls t s) = href l"
proof -
  let ?r = "documentElement pg"
  let ?s0 = "s\<lparr>default_prevented := False, propagation_stopped := False\<rparr>"
  from init have ls: "ls = fst (DOMContentLoaded pf pg)" by simp
  from closest_Some [OF cl] obtain pre where
    path: "composedPath t = pre @ c # ancestors c"
    and card: "matches_at ?r (ByClass ''employee-card'') c"
    by blast
  have nocontact: "\<forall>p\<in>set (composedPath t). (p, ContactClick) \<notin> set ls"
    using closest_None [OF nc] contact_entry_is_contact [of _ pf pg] ls by blast
  have nocard_anc: "\<forall>p\<in>set (ancestors c). (p, CardClick) \<notin> set ls"
    using outer card_entry_is_card [of _ pf pg] ls by (auto simp add: find_None_iff)
  let ?s1 = "bubble v ?r ls t pre ?s0"
  have "\<forall>p\<in>set pre. (p, ContactClick) \<notin> set ls" using nocontact path by simp
  from bubble_append [of ?s0 pre ls v ?r t "c # ancestors c", OF _ this]
  have b1: "bubble v ?r ls t (composedPath t) ?s0 = bubble v ?r ls t (c # ancestors c) ?s1"
    and ns1: "\<not> propagation_stopped ?s1"
    by (simp_all add: path)
  let ?s2 = "fold (run_handler v ?r t) (handlers_at ls c) ?s1"
  have "(c, ContactClick) \<notin> set ls" using nocontact path by simp
  then have "\<forall>x\<in>set (handlers_at ls c). fst x \<noteq> ContactClick"
    by (auto simp add: handlers_at_iff)
  from bubble_Cons_run [OF this ns1]
  have b2: "bubble v ?r ls t (c # ancestors c) ?s1 = bubble v ?r ls t (ancestors c) ?s2" .
  have cc: "\<And>s'. location_href (card_click ?r c t s') = href l"
    by (simp add: card_click_def na nb ce link)
  have "(CardClick, c) \<in> set (handlers_at ls c)"
    using grid_ready_card [OF init grid card] by (simp add: handlers_at_iff)
  moreover have "\<forall>x\<in>set (handlers_at ls c). snd x = c" by (simp add: handlers_at_iff)
  ultimately have l2: "location_href ?s2 = href l" using cc by (rule fold_card)
  from bubble_location [OF nocard_anc] l2
  have "location_href (bubble v ?r ls t (ancestors c) ?s2) = href l" by simp
  with b1 b2 tgt show ?thesis by (simp add: click_def)
qed

lemma contact_stops:
  assumes init: "DOMContentLoaded pf pg = (ls, None)"
    and grid: "querySelector (documentElement pg) (ByClass ''employees-grid'') \<noteq> None"
    and tgt: "subtree (documentElement pg) t = Some te"
    and cb: "closest (documentElement pg) t (ByClass ''btn-contact'') = Some b"
    and cl: "closest (documentElement pg) t (ByClass ''employee-card'') = Some c"
    and inside: "c \<in> set (ancestors b)"
  shows "location_href (click v (documentElement pg) ls t s) = location_href s \<and>
         propagation_stopped (click v (documentElement pg) ls t s)"
proof -
  let ?r = "documentElement pg"
  let ?s0 = "s\<lparr>default_prevented := False, propagation_stopped := False\<rparr>"
  from init have ls: "ls = fst (DOMContentLoaded pf pg)" by simp
  from closest_Some [OF cb] obtain pre where
    path: "composedPath t = pre @ b # ancestors b"
    and contact: "matches_at ?r (ByClass ''btn-contact'') b"
    and pre: "\<forall>p\<in>set pre. \<not> matches_at ?r (ByClass ''btn-contact'') p"
    and disj: "set (pre @ [b]) \<inter> set (ancestors b) = {}"
    by blast
  from closest_Some [OF cl] obtain pre' where
    path': "composedPath t = pre' @ c # ancestors c"
    and pre': "\<forall>p\<in>set pre'. \<not> matches_at ?r (ByClass ''employee-card'') p"
    and cn: "c \<notin> set pre'"
    by blast
  have nocard: "\<forall>p\<in>set (pre @ [b]). \<not> matches_at ?r (ByClass ''employee-card'') p"
  proof
    fix p assume p: "p \<in> set (pre @ [b])"
    with disj inside have pc: "p \<noteq> c" by auto
    from p disj have pa: "p \<notin> set (ancestors b)" by auto
    have "p \<in> set pre'"
    proof (rule ccontr)
      assume np: "p \<notin> set pre'"
      from p path have "p \<in> set (composedPath t)" by auto
      with path' np pc have pin: "p \<in> set (ancestors c)" by auto
      from composedPath_distinct [of t] path' have d: "distinct (pre' @ c # ancestors c)" by simp
      from path path' have e: "pre @ b # ancestors b = pre' @ c # ancestors c" by simp
      from inside obtain u w where anc: "ancestors b = u @ c # w" by (auto simp add: in_set_conv_decomp)
      from e anc have "(pre @ b # u) @ c # w = pre' @ c # ancestors c" by simp
      moreover from d have "c \<notin> set pre'" "c \<notin> set (ancestors c)" by auto
      moreover from composedPath_distinct [of t] path anc have "c \<notin> set (pre @ b # u)" "c \<notin> set w"
        by auto
      ultimately have "pre @ b # u = pre'"
        by (metis append_Cons_eq_iff)
      with p have "p \<in> set pre'" by auto
      with np show False by simp
    qed
    with pre' show "\<not> matches_at ?r (ByClass ''employee-card'') p" by simp
  qed
  have nocardclick: "\<forall>p\<in>set (pre @ [b]). (p, CardClick) \<notin> set ls"
    using nocard card_entry_is_card [of _ pf pg] ls by blast
  let ?s1 = "bubble v ?r ls t pre ?s0"
  have "\<forall>p\<in>set pre. (p, ContactClick) \<notin> set ls"
    using pre contact_entry_is_contact [of _ pf pg] ls by blast
  from bubble_append [of ?s0 pre ls v ?r t "b # ancestors b", OF _ this]
  have b1: "bubble v ?r ls t (composedPath t) ?s0 = bubble v ?r ls t (b # ancestors b) ?s1"
    by (simp add: path)
  let ?s2 = "fold (run_handler v ?r t) (handlers_at ls b) ?s1"
  have "(ContactClick, b) \<in> set (handlers_at ls b)"
    using grid_ready_contact [OF init grid contact] by (simp add: handlers_at_iff)
  then have st: "propagation_stopped ?s2" by (rule fold_contact)
  then have b2: "bubble v ?r ls t (b # ancestors b) ?s1 = ?s2" by (simp add: Let_def)
  have "\<forall>x\<in>set (handlers_at ls b). fst x \<noteq> CardClick"
    using nocardclick by (auto simp add: handlers_at_iff)
  from fold_location [OF this] have "location_href ?s2 = location_href ?s1" .
  also have "\<dots> = location_href ?s0"
    by (rule bubble_location) (use nocardclick in simp)
  finally have "location_href ?s2 = location_href s" by simp
  with st b1 b2 tgt show ?thesis by (simp add: click_def)
qed

text \<open>
  Claim C7, at an input where the script departs from it. On the grid page whose rating
  element has no \<open>.rating-value\<close> node, \<open>initRatingStars\<close> throws (line 474) after
  the card listeners are registered and before \<open>initGridContactButtons\<close> runs: the
  contact button of the card, position \<open>[0, 0, 0, 3]\<close>, gets no listener. A click on
  it is not stopped, reaches the listener of the card, and the browser is sent to the
  profile URL of the card.
\<close>

theorem contact_click_navigates:
  "DOMContentLoaded parse_example unrated_example =
     (initCoreFunctions unrated_grid @ initEmployeeCards unrated_grid, Some TypeError) \<and>
   initGridContactButtons unrated_grid = [([0, 0, 0, 3], ContactClick)] \<and>
   ([0, 0, 0, 3], ContactClick) \<notin> set (fst (DOMContentLoaded parse_example unrated_example)) \<and>
   closest unrated_grid [0, 0, 0, 3] (ByClass ''employee-card'') = Some [0, 0, 0] \<and>
   location_href state_example = ''https://example.org/'' \<and>
   location_href (click env_example unrated_grid (fst (DOMContentLoaded parse_example unrated_example))
      [0, 0, 0, 3] state_example) = ''https://example.org/e/7/'' \<and>
   \<not> propagation_stopped (click env_example unrated_grid
      (fst (DOMContentLoaded parse_example unrated_example)) [0, 0, 0, 3] state_example)"
proof -
  have "DOMContentLoaded parse_example unrated_example =
     (initCoreFunctions unrated_grid @ initEmployeeCards unrated_grid, Some TypeError)"
    by code_simp
  moreover have "initGridContactButtons unrated_grid = [([0, 0, 0, 3], ContactClick)]"
    by code_simp
  moreover have "([0, 0, 0, 3], ContactClick) \<notin> set (fst (DOMContentLoaded parse_example unrated_example))"
    by code_simp
  moreover have "closest unrated_grid [0, 0, 0, 3] (ByClass ''employee-card'') = Some [0, 0, 0]"
    by code_simp
  moreover have "location_href state_example = ''https://example.org/''"
    by (simp add: state_example_def)
  moreover have "location_href (click env_example unrated_grid
      (fst (DOMContentLoaded parse_example unrated_example)) [0, 0, 0, 3] state_example)
        = ''https://example.org/e/7/''"
    by code_simp
  moreover have "\<not> propagation_stopped (click env_example unrated_grid
      (fst (DOMContentLoaded parse_example unrated_example)) [0, 0, 0, 3] state_example)"
    by code_simp
  ultimately show ?thesis by simp
qed

text \<open>
  For comparison, a grid page whose initialisation ran through. Take a click on a valid
  target and let \<open>c\<close> be the employee card around the target (the nearest one).

  If the target is outside any link or button (no \<open>a\<close>, no \<open>button\<close> and no contact
  button on its path), the card is not nested in another card, and the card has a
  view-profile link \<open>l\<close> (the first \<open>.btn-view-profile\<close> in it), then after the click
  \<open>window.location.href\<close> is the URL of \<open>l\<close>.

  If the target is on or in a contact button \<open>b\<close> inside the card, then the click leaves
  \<open>window.location.href\<close> as it was, and the propagation of the event was stopped: the
  card's listener did not run.
\<close>

lemma card_click_rule:
  assumes "DOMContentLoaded pf pg = (ls, None)"
    and "querySelector (documentElement pg) (ByClass ''employees-grid'') \<noteq> None"
    and "subtree (documentElement pg) t = Some te"
    and "closest (documentElement pg) t (ByClass ''employee-card'') = Some c"
  shows "(find (matches_at (documentElement pg) (ByClass ''employee-card'')) (ancestors c) = None \<and>
          closest (documentElement pg) t (ByTag ''a'') = None \<and>
          closest (documentElement pg) t (ByTag ''button'') = None \<and>
          closest (documentElement pg) t (ByClass ''btn-contact'') = None \<and>
          subtree (documentElement pg) c = Some ce \<and>
          element_querySelector ce (ByClass ''btn-view-profile'') = Some l
          \<longrightarrow> location_href (click v (documentElement pg) ls t s) = href l) \<and>
         (closest (documentElement pg) t (ByClass ''btn-contact'') = Some b \<and> c \<in> set (ancestors b)
          \<longrightarrow> location_href (click v (documentElement pg) ls t s) = location_href s \<and>
              propagation_stopped (click v (documentElement pg) ls t s))"
proof (intro conjI impI)
  assume a: "find (matches_at (documentElement pg) (ByClass ''employee-card'')) (ancestors c) = None \<and>
          closest (documentElement pg) t (ByTag ''a'') = None \<and>
          closest (documentElement pg) t (ByTag ''button'') = None \<and>
          closest (documentElement pg) t (ByClass ''btn-contact'') = None \<and>
          subtree (documentElement pg) c = Some ce \<and>
          element_querySelector ce (ByClass ''btn-view-profile'') = Some l"
  from a have a1: "find (matches_at (documentElement pg) (ByClass ''employee-card'')) (ancestors c) = None"
    and a2: "closest (documentElement pg) t (ByTag ''a'') = None"
    and a3: "closest (documentElement pg) t (ByTag ''button'') = None"
    and a4: "closest (documentElement pg) t (ByClass ''btn-contact'') = None"
    and a5: "subtree (documentElement pg) c = Some ce"
    and a6: "element_querySelector ce (ByClass ''btn-view-profile'') = Some l"
    by blast+
  show "location_href (click v (documentElement pg) ls t s) = href l"
    by (rule card_navigates [OF assms(1,2,3,4) a1 a2 a3 a4 a5 a6])
next
  assume b: "closest (documentElement pg) t (ByClass ''btn-contact'') = Some b \<and> c \<in> set (ancestors b)"
  then have b1: "closest (documentElement pg) t (ByClass ''btn-contact'') = Some b"
    and b2: "c \<in> set (ancestors b)" by simp_all
  from contact_stops [OF assms(1,2,3) b1 assms(4) b2, of v s]
  show "location_href (click v (documentElement pg) ls t s) = location_href s"
    and "propagation_stopped (click v (documentElement pg) ls t s)"
    by simp_all
qed

lemma example_loaded:
  "DOMContentLoaded parse_example page_example = (fst (DOMContentLoaded parse_example page_example), None)"
  by code_simp

lemma example_grid: "querySelector grid_example (ByClass ''employees-grid'') \<noteq> None"
  by code_simp

lemma example_heading:
  "subtree grid_example [0, 1, 0, 0] = Some (Element ''h3'' [] None '''' [])"
  "closest grid_example [0, 1, 0, 0] (ByClass ''employee-card'') = Some [0, 1, 0]"
  "find (matches_at grid_example (ByClass ''employee-card'')) (ancestors [0, 1, 0]) = None"
  "closest grid_example [0, 1, 0, 0] (ByTag ''a'') = None"
  "closest grid_example [0, 1, 0, 0] (ByTag ''button'') = None"
  "closest grid_example [0, 1, 0, 0] (ByClass ''btn-contact'') = None"
  by code_simp+

lemma example_card:
  "subtree grid_example [0, 1, 0] =
     Some (Element ''div'' [''employee-card''] None '''' [
             Element ''h3'' [] None '''' [],
             Element ''a'' [''btn-view-profile''] (Some ''/e/7/'') ''https://example.org/e/7/'' [],
             Element ''span'' [''btn-contact''] None '''' []])"
  "element_querySelector
     (Element ''div'' [''employee-card''] None '''' [
             Element ''h3'' [] None '''' [],
             Element ''a'' [''btn-view-profile''] (Some ''/e/7/'') ''https://example.org/e/7/'' [],
             Element ''span'' [''btn-contact''] None '''' []])
     (ByClass ''btn-view-profile'') =
     Some (Element ''a'' [''btn-view-profile''] (Some ''/e/7/'') ''https://example.org/e/7/'' [])"
  by code_simp+

lemma example_contact:
  "subtree grid_example [0, 1, 0, 2] = Some (Element ''span'' [''btn-contact''] None '''' [])"
  "closest grid_example [0, 1, 0, 2] (ByClass ''employee-card'') = Some [0, 1, 0]"
  "closest grid_example [0, 1, 0, 2] (ByClass ''btn-contact'') = Some [0, 1, 0, 2]"
  "[0, 1, 0] \<in> set (ancestors [0, 1, 0, 2])"
  by code_simp+

text \<open>
  On the example grid page: a click on the heading of the card navigates to the card's
  profile URL; a click on its contact button (a \<open>span\<close>, so only \<open>stopPropagation\<close>
  keeps the card's listener from navigating) leaves the location alone.
\<close>

lemma card_click_rule_witness:
  "location_href (click env_example grid_example (fst (DOMContentLoaded parse_example page_example))
      [0, 1, 0, 0] state_example) = ''https://example.org/e/7/'' \<and>
   location_href (click env_example grid_example (fst (DOMContentLoaded parse_example page_example))
      [0, 1, 0, 2] state_example) = ''https://example.org/'' \<and>
   propagation_stopped (click env_example grid_example
      (fst (DOMContentLoaded parse_example page_example)) [0, 1, 0, 2] state_example)"
proof -
  have pg: "documentElement page_example = grid_example" by (simp add: page_example_def)
  note r1 = card_click_rule [of parse_example page_example
      "fst (DOMContentLoaded parse_example page_example)" "[0, 1, 0, 0]"
      "Element ''h3'' [] None '''' []" "[0, 1, 0]"
      "Element ''div'' [''employee-card''] None '''' [
             Element ''h3'' [] None '''' [],
             Element ''a'' [''btn-view-profile''] (Some ''/e/7/'') ''https://example.org/e/7/'' [],
             Element ''span'' [''btn-contact''] None '''' []]"
      "Element ''a'' [''btn-view-profile''] (Some ''/e/7/'') ''https://example.org/e/7/'' []"
      env_example state_example "[]",
      unfolded pg, OF example_loaded example_grid example_heading(1,2)]
  note r2 = card_click_rule [of parse_example page_example
      "fst (DOMContentLoaded parse_example page_example)" "[0, 1, 0, 2]"
      "Element ''span'' [''btn-contact''] None '''' []" "[0, 1, 0]"
      "Element ''div'' [] None '''' []"
      "Element ''a'' [] None '''' []"
      env_example state_example "[0, 1, 0, 2]",
      unfolded pg, OF example_loaded example_grid example_contact(1,2)]
  from r1 example_heading example_card
  have "location_href (click env_example grid_example (fst (DOMContentLoaded parse_example page_example))
      [0, 1, 0, 0] state_example) = ''https://example.org/e/7/''"
    by simp
  moreover from r2 example_contact
  have "location_href (click env_example grid_example (fst (DOMContentLoaded parse_example page_example))
      [0, 1, 0, 2] state_example) = location_href state_example \<and>
   propagation_stopped (click env_example grid_example
      (fst (DOMContentLoaded parse_example page_example)) [0, 1, 0, 2] state_example)"
    by simp
  ultimately show ?thesis by (simp add: state_example_def)
qed


section \<open>The mobile menu\<close>

lemma smooth_no_target:
  "scroll_target v r p = None \<Longrightarrow> body_classList (smooth_scroll_click v r p s) = body_classList s"
  by (simp add: scroll_target_def smooth_scroll_click_def throw_def
      split: option.splits sum.splits if_splits)

lemma scroll_target_SomeD:
  "scroll_target v r p = Some target \<Longrightarrow>
   \<exists>link targetId. subtree r p = Some link \<and> getAttribute_href link = Some targetId \<and>
      length targetId > 1 \<and> querySelector_string v targetId = Inr (Some target)"
  by (auto simp add: scroll_target_def split: option.splits sum.splits if_splits)

lemma scrollToElement_body: "body_classList (scrollToElement v r e s) = body_classList s"
  by (simp add: scrollToElement_def throw_def Let_def split: option.splits)

lemma smooth_target_closes:
  assumes "scroll_target v r p = Some target"
  shows "\<not> menu_open (smooth_scroll_click v r p s)"
proof -
  from scroll_target_SomeD [OF assms] obtain link targetId where
    "subtree r p = Some link" "getAttribute_href link = Some targetId"
    "length targetId > 1" "querySelector_string v targetId = Inr (Some target)"
    by blast
  then have "smooth_scroll_click v r p s =
      scrollToElement v r target (closeMobileMenu (s\<lparr>default_prevented := True\<rparr>))"
    by (simp add: smooth_scroll_click_def)
  then show ?thesis
    by (simp add: scrollToElement_body menu_open_def closeMobileMenu_def classList_remove_def)
qed

lemma toggle_closes: "menu_open s \<Longrightarrow> \<not> menu_open (toggleMobileMenu s)"
  by (simp add: toggleMobileMenu_def classList_toggle_def menu_open_def)

lemma close_closes: "\<not> menu_open (closeMobileMenu s)"
  by (simp add: closeMobileMenu_def classList_remove_def menu_open_def)

lemma run_still:
  "(fst x = SmoothScroll \<and> scroll_target v r (snd x) = None) \<or> fst x = CardClick \<or>
   fst x = ContactClick \<Longrightarrow>
   body_classList (run_handler v r t x s) = body_classList s"
  by (cases x, cases "fst x")
     (simp_all add: smooth_no_target card_click_frame contact_click_frame)

lemma fold_still:
  "\<forall>x\<in>set hs. (fst x = SmoothScroll \<and> scroll_target v r (snd x) = None) \<or>
      fst x = CardClick \<or> fst x = ContactClick \<Longrightarrow>
   body_classList (fold (run_handler v r t) hs s) = body_classList s"
proof (induction hs arbitrary: s)
  case Nil
  show ?case by simp
next
  case (Cons x hs)
  from Cons.prems have "body_classList (run_handler v r t x s) = body_classList s"
    by (intro run_still) simp
  with Cons show ?case by simp
qed

lemma bubble_still:
  "\<forall>p\<in>set ps. \<forall>x\<in>set (handlers_at ls p).
      (fst x = SmoothScroll \<and> scroll_target v r (snd x) = None) \<or>
      fst x = CardClick \<or> fst x = ContactClick \<Longrightarrow>
   body_classList (bubble v r ls t ps s) = body_classList s"
proof (induction ps arbitrary: s)
  case Nil
  show ?case by simp
next
  case (Cons p ps)
  from Cons.prems have "body_classList (fold (run_handler v r t) (handlers_at ls p) s) = body_classList s"
    by (intro fold_still) simp
  with Cons show ?case by (simp add: Let_def)
qed

lemma bubble_from_closed:
  assumes "\<not> menu_open (fold (run_handler v r t) (handlers_at ls q) s)"
    and "\<forall>p\<in>set post. (p, ToggleMobileMenu) \<notin> set ls"
  shows "\<not> menu_open (bubble v r ls t (q # post) s)"
  using assms bubble_closed_stays [OF assms(2)] by (simp add: Let_def)

lemma closes_at_node:
  assumes tgt: "subtree r t = Some te"
    and q: "reaches ls t q"
    and closed: "\<And>s'. \<not> menu_open (fold (run_handler v r t) (handlers_at ls q) s')"
    and above: "\<forall>p\<in>set (ancestors q). (p, ToggleMobileMenu) \<notin> set ls"
  shows "\<not> menu_open (click v r ls t s)"
proof -
  let ?s0 = "s\<lparr>default_prevented := False, propagation_stopped := False\<rparr>"
  let ?pre = "takeWhile (\<lambda>p. p \<noteq> q) (composedPath t)"
  from q have qin: "q \<in> set (composedPath t)"
    and pre: "\<forall>p\<in>set ?pre. (p, ContactClick) \<notin> set ls"
    by (simp_all add: reaches_def)
  from composedPath_split [OF qin] composedPath_Cons [of q]
  have path: "composedPath t = ?pre @ q # ancestors q" by (simp add: ancestors_def)
  from bubble_append [of ?s0 ?pre ls v r t "q # ancestors q", OF _ pre]
  have "bubble v r ls t (?pre @ q # ancestors q) ?s0 =
          bubble v r ls t (q # ancestors q) (bubble v r ls t ?pre ?s0)"
    by simp
  with path have b: "bubble v r ls t (composedPath t) ?s0 =
          bubble v r ls t (q # ancestors q) (bubble v r ls t ?pre ?s0)"
    by simp
  from bubble_from_closed [OF closed above]
  have "\<not> menu_open (bubble v r ls t (q # ancestors q) (bubble v r ls t ?pre ?s0))" .
  with b tgt show ?thesis by (simp add: click_def)
qed

lemma toggle_only_at:
  assumes "fst (DOMContentLoaded pf pg) = ls"
    and "querySelector (documentElement pg) (ByClass ''menu-toggle'') = Some mt"
  shows "(p, ToggleMobileMenu) \<in> set ls \<longleftrightarrow> p = mt"
  using toggle_entry_iff [of p pf pg] assms by auto

lemma nav_link_closes:
  assumes ls: "fst (DOMContentLoaded pf pg) = ls"
    and mt: "querySelector (documentElement pg) (ByClass ''menu-toggle'') = Some mt"
    and tgt: "subtree (documentElement pg) t = Some te"
    and l: "matches_at (documentElement pg) (ByClass ''nav-link'') l"
    and reach: "reaches ls t l"
    and above: "mt \<notin> set (ancestors l)"
  shows "\<not> menu_open (click v (documentElement pg) ls t s)"
proof (rule closes_at_node [OF tgt reach])
  let ?r = "documentElement pg"
  show "\<forall>p\<in>set (ancestors l). (p, ToggleMobileMenu) \<notin> set ls"
    using above toggle_only_at [OF ls mt] by auto
  fix s'
  let ?A = "initSmoothScroll ?r @ [(mt, ToggleMobileMenu)]"
  let ?B = "map (\<lambda>link. (link, CloseMobileMenu)) (querySelectorAll ?r (ByClass ''nav-link'')) @
            fst (initPageSpecificFunctions pf pg)"
  have split: "ls = ?A @ ?B"
    using ls listeners_split [of pf pg] mt by (simp add: initMobileMenu_def)
  have inB: "(CloseMobileMenu, l) \<in> set (handlers_at ?B l)"
    using l by (simp add: handlers_at_iff querySelectorAll_iff)
  have noT: "\<forall>y\<in>set (handlers_at ?B l). fst y \<noteq> ToggleMobileMenu"
  proof
    fix y assume "y \<in> set (handlers_at ?B l)"
    then have "(l, fst y) \<in> set ?B" by (simp add: handlers_at_iff)
    then show "fst y \<noteq> ToggleMobileMenu"
      using specific_entries [of l "fst y" pf pg] by auto
  qed
  have "\<not> menu_open (fold (run_handler v ?r t) (handlers_at ?B l)
                        (fold (run_handler v ?r t) (handlers_at ?A l) s'))"
    by (rule fold_closer [OF inB _ noT]) (simp add: close_closes)
  then have c: "\<not> menu_open (fold (run_handler v ?r t) (handlers_at ?A l @ handlers_at ?B l) s')"
    by simp
  have e: "handlers_at ls l = handlers_at ?A l @ handlers_at ?B l"
    by (simp only: split handlers_at_append)
  show "\<not> menu_open (fold (run_handler v ?r t) (handlers_at ls l) s')"
    unfolding e by (rule c)
qed

lemma smooth_scroll_closes:
  assumes ls: "fst (DOMContentLoaded pf pg) = ls"
    and tgt: "subtree (documentElement pg) t = Some te"
    and h: "scrolls v (documentElement pg) h"
    and reach: "reaches ls t h"
    and above: "querySelector (documentElement pg) (ByClass ''menu-toggle'') \<notin> Some ` set (composedPath h)"
  shows "\<not> menu_open (click v (documentElement pg) ls t s)"
proof (rule closes_at_node [OF tgt reach])
  let ?r = "documentElement pg"
  have ntog: "(p, ToggleMobileMenu) \<notin> set ls" if "p \<in> set (composedPath h)" for p
  proof
    assume "(p, ToggleMobileMenu) \<in> set ls"
    with ls toggle_entry_iff [of p pf pg]
    have "querySelector ?r (ByClass ''menu-toggle'') = Some p" by simp
    with that above show False by simp
  qed
  show "\<forall>p\<in>set (ancestors h). (p, ToggleMobileMenu) \<notin> set ls"
    using ntog by (simp add: path_ancestors)
  fix s'
  from h obtain target where hl: "matches_at ?r HashLink h" and st: "scroll_target v ?r h = Some target"
    by (auto simp add: scrolls_def)
  have "(h, SmoothScroll) \<in> set ls"
    using ls listeners_split [of pf pg] hl by (auto simp add: smooth_entries)
  then have inh: "(SmoothScroll, h) \<in> set (handlers_at ls h)" by (simp add: handlers_at_iff)
  have noT: "\<forall>y\<in>set (handlers_at ls h). fst y \<noteq> ToggleMobileMenu"
    using ntog [of h] by (auto simp add: handlers_at_iff composedPath_self)
  show "\<not> menu_open (fold (run_handler v ?r t) (handlers_at ls h) s')"
    by (rule fold_closer [OF inh _ noT]) (simp add: smooth_target_closes [OF st])
qed

lemma toggle_while_open_closes:
  assumes ls: "fst (DOMContentLoaded pf pg) = ls"
    and mt: "querySelector (documentElement pg) (ByClass ''menu-toggle'') = Some mt"
    and tgt: "subtree (documentElement pg) t = Some te"
    and calm: "calm_below v (documentElement pg) ls t mt"
    and ns: "\<not> scrolls v (documentElement pg) mt"
    and op: "menu_open s"
  shows "\<not> menu_open (click v (documentElement pg) ls t s)"
proof -
  let ?r = "documentElement pg"
  let ?s0 = "s\<lparr>default_prevented := False, propagation_stopped := False\<rparr>"
  let ?pre = "takeWhile (\<lambda>p. p \<noteq> mt) (composedPath t)"
  from calm have qin: "mt \<in> set (composedPath t)"
    and nocontact: "\<forall>p\<in>set ?pre. (p, ContactClick) \<notin> set ls"
    and noclose: "\<forall>p\<in>set ?pre. (p, CloseMobileMenu) \<notin> set ls"
    and noscroll: "\<forall>p\<in>set ?pre. \<not> scrolls v ?r p"
    by (simp_all add: calm_below_def reaches_def)
  have still: "\<forall>p\<in>set ?pre. \<forall>x\<in>set (handlers_at ls p).
      (fst x = SmoothScroll \<and> scroll_target v ?r (snd x) = None) \<or>
      fst x = CardClick \<or> fst x = ContactClick"
  proof (intro ballI)
    fix p x assume p: "p \<in> set ?pre" and "x \<in> set (handlers_at ls p)"
    then have x: "snd x = p" "(p, fst x) \<in> set ls" by (simp_all add: handlers_at_iff)
    from p have pm: "p \<noteq> mt" by (auto dest: set_takeWhileD)
    from x(2) ls listeners_split [of pf pg]
    consider "(p, fst x) \<in> set (initSmoothScroll ?r)" | "(p, fst x) \<in> set (initMobileMenu ?r)"
      | "(p, fst x) \<in> set (fst (initPageSpecificFunctions pf pg))"
      by auto
    then show "(fst x = SmoothScroll \<and> scroll_target v ?r (snd x) = None) \<or>
      fst x = CardClick \<or> fst x = ContactClick"
    proof cases
      case 1
      then have "fst x = SmoothScroll" "matches_at ?r HashLink p" by (simp_all add: smooth_entries)
      with noscroll p x(1) show ?thesis by (simp add: scrolls_def)
    next
      case 2
      with mt pm have "fst x = CloseMobileMenu" by (auto simp add: menu_entries)
      with x(2) noclose p show ?thesis by auto
    next
      case 3
      from specific_entries [OF this] show ?thesis by auto
    qed
  qed
  let ?sp = "bubble v ?r ls t ?pre ?s0"
  from bubble_still [OF still] have body: "body_classList ?sp = body_classList ?s0" .
  from composedPath_split [OF qin] composedPath_Cons [of mt]
  have path: "composedPath t = ?pre @ mt # ancestors mt" by (simp add: ancestors_def)
  from bubble_append [of ?s0 ?pre ls v ?r t "mt # ancestors mt", OF _ nocontact]
  have "bubble v ?r ls t (?pre @ mt # ancestors mt) ?s0 = bubble v ?r ls t (mt # ancestors mt) ?sp"
    by simp
  with path have b: "bubble v ?r ls t (composedPath t) ?s0 = bubble v ?r ls t (mt # ancestors mt) ?sp"
    by simp
  let ?S = "initSmoothScroll ?r"
  let ?B = "map (\<lambda>link. (link, CloseMobileMenu)) (querySelectorAll ?r (ByClass ''nav-link'')) @
            fst (initPageSpecificFunctions pf pg)"
  have split: "ls = ?S @ (mt, ToggleMobileMenu) # ?B"
    using ls listeners_split [of pf pg] mt by (simp add: initMobileMenu_def)
  have hs: "handlers_at ls mt = handlers_at ?S mt @ (ToggleMobileMenu, mt) # handlers_at ?B mt"
    by (simp add: split handlers_at_append) (simp add: handlers_at_def)
  have inert: "\<forall>x\<in>set (handlers_at ?S mt).
      (fst x = SmoothScroll \<and> scroll_target v ?r (snd x) = None) \<or>
      fst x = CardClick \<or> fst x = ContactClick"
  proof
    fix x assume "x \<in> set (handlers_at ?S mt)"
    then have x: "snd x = mt" "(mt, fst x) \<in> set ?S" by (simp_all add: handlers_at_iff)
    then have "fst x = SmoothScroll" "matches_at ?r HashLink mt" by (simp_all add: smooth_entries)
    with ns x show "(fst x = SmoothScroll \<and> scroll_target v ?r (snd x) = None) \<or>
      fst x = CardClick \<or> fst x = ContactClick"
      by (simp add: scrolls_def)
  qed
  let ?s1 = "fold (run_handler v ?r t) (handlers_at ?S mt) ?sp"
  from fold_still [OF inert] body op have "menu_open ?s1" by (simp add: menu_open_def)
  then have c: "\<not> menu_open (toggleMobileMenu ?s1)" by (rule toggle_closes)
  have noT: "\<forall>y\<in>set (handlers_at ?B mt). fst y \<noteq> ToggleMobileMenu"
  proof
    fix y assume "y \<in> set (handlers_at ?B mt)"
    then have "(mt, fst y) \<in> set ?B" by (simp add: handlers_at_iff)
    then show "fst y \<noteq> ToggleMobileMenu"
      using specific_entries [of mt "fst y" pf pg] by auto
  qed
  from fold_closed_stays [OF noT c]
  have closed: "\<not> menu_open (fold (run_handler v ?r t) (handlers_at ls mt) ?sp)"
    by (simp add: hs)
  have "mt \<notin> set (ancestors mt)" by (rule self_not_ancestor)
  then have "\<forall>p\<in>set (ancestors mt). (p, ToggleMobileMenu) \<notin> set ls"
    using toggle_only_at [OF ls mt] by auto
  from bubble_from_closed [OF closed this] b tgt show ?thesis by (simp add: click_def)
qed

lemma click_body:
  "removeAll ''nav-open'' (body_classList (click v r ls t s)) = removeAll ''nav-open'' (body_classList s)"
  by (cases "subtree r t") (simp_all add: click_def bubble_body)

lemma no_toggle_no_listener:
  assumes "fst (DOMContentLoaded pf pg) = ls"
    and "querySelector (documentElement pg) (ByClass ''menu-toggle'') = None"
  shows "(p, CloseMobileMenu) \<notin> set ls \<and> (p, ToggleMobileMenu) \<notin> set ls"
proof -
  have "(p, h) \<in> set ls \<Longrightarrow> h \<noteq> CloseMobileMenu \<and> h \<noteq> ToggleMobileMenu" for h
    using assms specific_entries [of p h pf pg]
    by (auto simp add: listeners_split smooth_entries menu_entries)
  then show ?thesis by blast
qed

text \<open>
  Claim C8, as amended. Whether the menu is open is the class \<open>nav-open\<close> of the body,
  and a click on a valid target changes the class list of the body by that class at most.
  The toggle is the first \<open>.menu-toggle\<close> of the page, \<open>mt\<close>; the script binds no
  other.

  A click on the toggle while the menu is open closes it, when the click reaches the
  toggle, no node of its path below the toggle is a navigation link with its closing
  listener or an in-page link to an existing target, and the toggle is not itself such
  an in-page link.

  On a page with the toggle, a click that reaches a navigation link \<open>l\<close> closes the menu,
  when the toggle is not an ancestor of the link. A click reaches a node when no contact
  button below the node stops the event.

  On any page, a click that reaches an in-page link \<open>h\<close> whose target exists, a
  smooth-scroll navigation, closes the menu, when the toggle is neither that link nor an
  ancestor of it; also when \<open>scrollToElement\<close> then throws for want of a header.

  On a page without a toggle no node gets the toggling or the closing listener of
  \<open>initMobileMenu\<close>.
\<close>

theorem mobile_menu_rule:
  assumes "fst (DOMContentLoaded pf pg) = ls"
    and "subtree (documentElement pg) t = Some te"
  shows "removeAll ''nav-open'' (body_classList (click v (documentElement pg) ls t s)) =
           removeAll ''nav-open'' (body_classList s) \<and>
         (querySelector (documentElement pg) (ByClass ''menu-toggle'') = Some mt \<and>
          calm_below v (documentElement pg) ls t mt \<and> \<not> scrolls v (documentElement pg) mt \<and> menu_open s
          \<longrightarrow> \<not> menu_open (click v (documentElement pg) ls t s)) \<and>
         (querySelector (documentElement pg) (ByClass ''menu-toggle'') = Some mt \<and>
          matches_at (documentElement pg) (ByClass ''nav-link'') l \<and> reaches ls t l \<and>
          mt \<notin> set (ancestors l)
          \<longrightarrow> \<not> menu_open (click v (documentElement pg) ls t s)) \<and>
         (scrolls v (documentElement pg) h \<and> reaches ls t h \<and>
          querySelector (documentElement pg) (ByClass ''menu-toggle'') \<notin> Some ` set (composedPath h)
          \<longrightarrow> \<not> menu_open (click v (documentElement pg) ls t s)) \<and>
         (querySelector (documentElement pg) (ByClass ''menu-toggle'') = None
          \<longrightarrow> (p, CloseMobileMenu) \<notin> set ls \<and> (p, ToggleMobileMenu) \<notin> set ls)"
proof (intro conjI impI)
  show "removeAll ''nav-open'' (body_classList (click v (documentElement pg) ls t s)) =
           removeAll ''nav-open'' (body_classList s)"
    by (rule click_body)
next
  assume "querySelector (documentElement pg) (ByClass ''menu-toggle'') = Some mt \<and>
          calm_below v (documentElement pg) ls t mt \<and> \<not> scrolls v (documentElement pg) mt \<and> menu_open s"
  then show "\<not> menu_open (click v (documentElement pg) ls t s)"
    using toggle_while_open_closes [OF assms(1) _ assms(2), of mt v s] by simp
next
  assume "querySelector (documentElement pg) (ByClass ''menu-toggle'') = Some mt \<and>
          matches_at (documentElement pg) (ByClass ''nav-link'') l \<and> reaches ls t l \<and>
          mt \<notin> set (ancestors l)"
  then show "\<not> menu_open (click v (documentElement pg) ls t s)"
    using nav_link_closes [OF assms(1) _ assms(2), of mt l v s] by simp
next
  assume "scrolls v (documentElement pg) h \<and> reaches ls t h \<and>
          querySelector (documentElement pg) (ByClass ''menu-toggle'') \<notin> Some ` set (composedPath h)"
  then show "\<not> menu_open (click v (documentElement pg) ls t s)"
    using smooth_scroll_closes [OF assms, of v h s] by simp
next
  assume n: "querySelector (documentElement pg) (ByClass ''menu-toggle'') = None"
  from no_toggle_no_listener [OF assms(1) n, of p]
  show "(p, CloseMobileMenu) \<notin> set ls" and "(p, ToggleMobileMenu) \<notin> set ls"
    by simp_all
qed

lemma example_toggle:
  "querySelector grid_example (ByClass ''menu-toggle'') = Some [0, 0, 0]"
  "subtree grid_example [0, 0, 0] = Some (Element ''button'' [''menu-toggle''] None '''' [])"
  "calm_below env_example grid_example (fst (DOMContentLoaded parse_example page_example)) [0, 0, 0] [0, 0, 0]"
  "\<not> scrolls env_example grid_example [0, 0, 0]"
  "menu_open state_example"
  by code_simp+

lemma example_nav_link:
  "subtree grid_example [0, 0, 1] =
     Some (Element ''a'' [''nav-link''] (Some ''/team/'') ''https://example.org/team/'' [])"
  "matches_at grid_example (ByClass ''nav-link'') [0, 0, 1]"
  "reaches (fst (DOMContentLoaded parse_example page_example)) [0, 0, 1] [0, 0, 1]"
  "[0, 0, 0] \<notin> set (ancestors [0, 0, 1])"
  by code_simp+

lemma example_hash_link:
  "subtree grid_example [0, 0, 2] =
     Some (Element ''a'' [''nav-link''] (Some ''#grid'') ''https://example.org/#grid'' [])"
  "scrolls env_example grid_example [0, 0, 2]"
  "reaches (fst (DOMContentLoaded parse_example page_example)) [0, 0, 2] [0, 0, 2]"
  "querySelector grid_example (ByClass ''menu-toggle'') \<notin> Some ` set (composedPath [0, 0, 2])"
  by code_simp+

lemma example_no_toggle:
  "subtree no_toggle_example [0, 0, 0] =
     Some (Element ''a'' [''nav-link''] (Some ''/team/'') ''https://example.org/team/'' [])"
  "querySelector no_toggle_example (ByClass ''menu-toggle'') = None"
  by code_simp+

text \<open>
  On the example page with the menu open: a click on the toggle, on the first navigation
  link, and on the in-page link to the grid each leave the menu closed. On the page
  without a toggle the navigation link has no closing listener.
\<close>

theorem mobile_menu_rule_witness:
  "menu_open state_example \<and>
   \<not> menu_open (click env_example grid_example (fst (DOMContentLoaded parse_example page_example))
        [0, 0, 0] state_example) \<and>
   \<not> menu_open (click env_example grid_example (fst (DOMContentLoaded parse_example page_example))
        [0, 0, 1] state_example) \<and>
   \<not> menu_open (click env_example grid_example (fst (DOMContentLoaded parse_example page_example))
        [0, 0, 2] state_example) \<and>
   ([0, 0, 0], CloseMobileMenu) \<notin> set (fst (DOMContentLoaded parse_example (plain_page no_toggle_example)))"
proof -
  have pg: "documentElement page_example = grid_example" by (simp add: page_example_def)
  have pn: "documentElement (plain_page no_toggle_example) = no_toggle_example"
    by (simp add: plain_page_def)
  note r1 = mobile_menu_rule [of parse_example page_example
      "fst (DOMContentLoaded parse_example page_example)" "[0, 0, 0]"
      "Element ''button'' [''menu-toggle''] None '''' []" env_example state_example "[0, 0, 0]" "[]" "[]" "[]",
      unfolded pg, OF refl example_toggle(2)]
  note r2 = mobile_menu_rule [of parse_example page_example
      "fst (DOMContentLoaded parse_example page_example)" "[0, 0, 1]"
      "Element ''a'' [''nav-link''] (Some ''/team/'') ''https://example.org/team/'' []"
      env_example state_example "[0, 0, 0]" "[0, 0, 1]" "[]" "[]",
      unfolded pg, OF refl example_nav_link(1)]
  note r3 = mobile_menu_rule [of parse_example page_example
      "fst (DOMContentLoaded parse_example page_example)" "[0, 0, 2]"
      "Element ''a'' [''nav-link''] (Some ''#grid'') ''https://example.org/#grid'' []"
      env_example state_example "[0, 0, 0]" "[]" "[0, 0, 2]" "[]",
      unfolded pg, OF refl example_hash_link(1)]
  note r4 = mobile_menu_rule [of parse_example "plain_page no_toggle_example"
      "fst (DOMContentLoaded parse_example (plain_page no_toggle_example))" "[0, 0, 0]"
      "Element ''a'' [''nav-link''] (Some ''/team/'') ''https://example.org/team/'' []"
      env_example state_example "[]" "[]" "[]" "[0, 0, 0]",
      unfolded pn, OF refl example_no_toggle(1)]
  from r1 example_toggle(1,3,4,5)
  have "\<not> menu_open (click env_example grid_example (fst (DOMContentLoaded parse_example page_example))
        [0, 0, 0] state_example)" by simp
  moreover from r2 example_toggle(1) example_nav_link(2,3,4)
  have "\<not> menu_open (click env_example grid_example (fst (DOMContentLoaded parse_example page_example))
        [0, 0, 1] state_example)" by simp
  moreover from r3 example_hash_link(2,3,4)
  have "\<not> menu_open (click env_example grid_example (fst (DOMContentLoaded parse_example page_example))
        [0, 0, 2] state_example)" by simp
  moreover from r4 example_no_toggle(2)
  have "([0, 0, 0], CloseMobileMenu) \<notin> set (fst (DOMContentLoaded parse_example (plain_page no_toggle_example)))"
    by simp
  ultimately show ?thesis using example_toggle(5) by simp
qed

text \<open>
  Claim C8 as the specification states it has no such conditions. With the menu open:
  on the page without a toggle a click on the navigation link leaves it open (the guard
  \<open>if (menuToggle)\<close> wraps the binding of the links); where the toggle is an in-page
  link to the navigation, a click on it, a smooth-scroll navigation to an existing
  target, closes the menu and opens it again; a click on the second of two toggles does
  nothing; a click on a navigation link inside the toggle, or on an in-page link inside
  the toggle, closes the menu and the toggle opens it again; and a click on a contact
  button inside the toggle, or inside a navigation link that is also an in-page link,
  is stopped there and reaches neither.
\<close>

theorem mobile_menu_counterexample:
  "menu_open state_example \<and>
   menu_open (click env_example no_toggle_example
      (fst (DOMContentLoaded parse_example (plain_page no_toggle_example))) [0, 0, 0] state_example) \<and>
   menu_open (click link_toggle_env link_toggle_example
      (fst (DOMContentLoaded parse_example (plain_page link_toggle_example))) [0, 0, 0] state_example) \<and>
   menu_open (click env_example two_toggles_example
      (fst (DOMContentLoaded parse_example (plain_page two_toggles_example))) [0, 1] state_example) \<and>
   menu_open (click env_example nested_link_example
      (fst (DOMContentLoaded parse_example (plain_page nested_link_example))) [0, 0, 0] state_example) \<and>
   menu_open (click link_toggle_env nested_hash_example
      (fst (DOMContentLoaded parse_example (plain_page nested_hash_example))) [0, 0, 0, 0] state_example) \<and>
   menu_open (click env_example stopped_example
      (fst (DOMContentLoaded parse_example (plain_page stopped_example))) [0, 0, 0] state_example) \<and>
   menu_open (click env_example stopped_example
      (fst (DOMContentLoaded parse_example (plain_page stopped_example))) [0, 2, 0] state_example)"
proof -
  have "menu_open state_example" by code_simp
  moreover have "menu_open (click env_example no_toggle_example
      (fst (DOMContentLoaded parse_example (plain_page no_toggle_example))) [0, 0, 0] state_example)"
    by code_simp
  moreover have "menu_open (click link_toggle_env link_toggle_example
      (fst (DOMContentLoaded parse_example (plain_page link_toggle_example))) [0, 0, 0] state_example)"
    by code_simp
  moreover have "menu_open (click env_example two_toggles_example
      (fst (DOMContentLoaded parse_example (plain_page two_toggles_example))) [0, 1] state_example)"
    by code_simp
  moreover have "menu_open (click env_example nested_link_example
      (fst (DOMContentLoaded parse_example (plain_page nested_link_example))) [0, 0, 0] state_example)"
    by code_simp
  moreover have "menu_open (click link_toggle_env nested_hash_example
      (fst (DOMContentLoaded parse_example (plain_page nested_hash_example))) [0, 0, 0, 0] state_example)"
    by code_simp
  moreover have "menu_open (click env_example stopped_example
      (fst (DOMContentLoaded parse_example (plain_page stopped_example))) [0, 0, 0] state_example)"
    by code_simp
  moreover have "menu_open (click env_example stopped_example
      (fst (DOMContentLoaded parse_example (plain_page stopped_example))) [0, 2, 0] state_example)"
    by code_simp
  ultimately show ?thesis by simp
qed


section \<open>Missing elements\<close>

text \<open>
  Claim C2, at inputs where the script departs from it. A \<open>.bio-section\<close> with no
  \<open>.bio-content\<close> makes \<open>initBioSection\<close> throw, and on a page that is a profile page
  this ends the \<open>DOMContentLoaded\<close> listener: only the core listeners are registered,
  the grid is never initialised. On a page with no \<open>.main-header\<close> the scroll listener
  throws at every scroll event, and a click on an in-page link whose target exists throws
  in \<open>scrollToElement\<close> and scrolls nowhere. A rating element with no
  \<open>.rating-value\<close> node makes \<open>initRatingStars\<close> throw.
\<close>

theorem missing_element_throws:
  "initBioSection (Some \<lparr>bioContent = None, bio_appended = []\<rparr>) = Inl TypeError \<and>
   DOMContentLoaded parse_example profile_example =
     (initCoreFunctions (documentElement profile_example), Some TypeError) \<and>
   scroll_listener 50 (initHeaderScroll None 0) = Inl TypeError \<and>
   querySelector bare_example (ByClass ''main-header'') = None \<and>
   uncaught (click bare_env bare_example (initCoreFunctions bare_example) [0, 0] state_example) = [TypeError] \<and>
   scrollTo_top (click bare_env bare_example (initCoreFunctions bare_example) [0, 0] state_example) = None \<and>
   initRatingStars parse_example [\<lparr>rating_value_text = None, rating_stars = Some []\<rparr>] =
     ([\<lparr>rating_value_text = None, rating_stars = Some []\<rparr>], Some TypeError)"
proof -
  have "initBioSection (Some \<lparr>bioContent = None, bio_appended = []\<rparr>) = Inl TypeError"
    by (simp add: initBioSection_def)
  moreover have "DOMContentLoaded parse_example profile_example =
     (initCoreFunctions (documentElement profile_example), Some TypeError)"
    by code_simp
  moreover have "scroll_listener 50 (initHeaderScroll None 0) = Inl TypeError"
    by (simp add: scroll_listener_def initHeaderScroll_def)
  moreover have "querySelector bare_example (ByClass ''main-header'') = None"
    by code_simp
  moreover have "uncaught (click bare_env bare_example (initCoreFunctions bare_example) [0, 0] state_example) = [TypeError]"
    by code_simp
  moreover have "scrollTo_top (click bare_env bare_example (initCoreFunctions bare_example) [0, 0] state_example) = None"
    by code_simp
  moreover have "initRatingStars parse_example [\<lparr>rating_value_text = None, rating_stars = Some []\<rparr>] =
     ([\<lparr>rating_value_text = None, rating_stars = Some []\<rparr>], Some TypeError)"
    by (simp add: render_rating_def)
  ultimately show ?thesis by simp
qed

end
